theory Spec2Isabelle
  imports Main "HOL-Library.Sublist"
begin

section \<open>The event processor of the A/B-testing platform\<close>

text \<open>
  A shallow embedding of \<^verbatim>\<open>packages/lambda/event-processor/index.ts\<close>. The handler
  receives a batch of Firehose records, decodes each one into events and, for every
  event, writes to the database through the Prisma client \<^verbatim>\<open>db\<close>. The tables the
  processor touches are the fields of the record \<open>world\<close>; each awaited call of the
  source is one function from a world to a result and a new world, and an exception
  is the result \<open>Err\<close>, which keeps the world as it was when the exception was thrown
  (the source opens no transaction, so earlier writes stay).
\<close>

subsection \<open>Incoming data (shared/types.ts)\<close>

text \<open>
  The events come from \<^verbatim>\<open>JSON.parse\<close>, so every field may be absent whatever the
  TypeScript interface says: all fields are options. \<open>evt_timestamp\<close> is the instant
  (milliseconds since the epoch) that \<^verbatim>\<open>new Date(evt.timestamp)\<close> denotes, \<open>None\<close>
  when the field is absent or does not parse (an invalid Date). \<open>evt_value\<close> is a
  JavaScript number, modelled by an integer amount.
\<close>

record AttributedExperiment =
  att_experimentId :: string
  att_variantId :: string

record IncomingEvent =
  evt_projectId :: "string option"
  evt_visitorId :: "string option"
  evt_sessionId :: "string option"
  evt_timestamp :: "int option"
  evt_eventType :: "string option"
  evt_url :: "string option"
  evt_experimentId :: "string option"
  evt_variantId :: "string option"
  evt_variantName :: "string option"
  evt_isControl :: "bool option"
  evt_goalId :: "string option"
  evt_goalName :: "string option"
  evt_goalType :: "string option"
  evt_attributedExperiments :: "AttributedExperiment list option"
  evt_eventName :: "string option"
  evt_value :: "int option"
  evt_currency :: "string option"
  evt_userAgent :: "string option"
  evt_referrer :: "string option"

text \<open>
  A value that \<^verbatim>\<open>JSON.parse\<close> returned, as \<^verbatim>\<open>processEvent\<close> reads it: \<^verbatim>\<open>null\<close>, or
  the fields found by destructuring (a number, a string or a boolean has none of them).
\<close>

datatype decoded = JNull | JEvent IncomingEvent

record FirehoseRecord =
  rec_recordId :: string
  rec_data :: string

datatype result_tag = Ok_tag | ProcessingFailed

record OutputRecord =
  out_recordId :: string
  out_result :: result_tag
  out_data :: string

subsection \<open>JavaScript truthiness and strings\<close>

text \<open>\<^verbatim>\<open>!x\<close> on an optional string: absent and the empty string are falsy.\<close>

fun truthy :: "string option \<Rightarrow> bool" where
  "truthy None = False"
| "truthy (Some s) = (s \<noteq> [])"

text \<open>\<^verbatim>\<open>x || d\<close> on an optional string.\<close>

fun orElse :: "string option \<Rightarrow> string \<Rightarrow> string" where
  "orElse None d = d"
| "orElse (Some s) d = (if s = [] then d else s)"

text \<open>\<^verbatim>\<open>x\<close> as a condition, and \<^verbatim>\<open>x || 0\<close>, on an optional number: absent and 0 are falsy.\<close>

fun truthyNum :: "int option \<Rightarrow> bool" where
  "truthyNum None = False"
| "truthyNum (Some n) = (n \<noteq> 0)"

fun numOrZero :: "int option \<Rightarrow> int" where
  "numOrZero None = 0"
| "numOrZero (Some n) = n"

text \<open>\<^verbatim>\<open>ua.includes(sub)\<close>: \<open>sub\<close> occurs in \<open>ua\<close> as a contiguous substring.\<close>

fun includes_str :: "string \<Rightarrow> string \<Rightarrow> bool" where
  "includes_str [] sub = (sub = [])"
| "includes_str (c # cs) sub = (prefix sub (c # cs) \<or> includes_str cs sub)"

text \<open>
  The flag \<^verbatim>\<open>i\<close> of the two regular expressions: the patterns are ASCII letters, which
  only match their own two cases.
\<close>

definition toLowerAscii :: "char \<Rightarrow> char" where
  "toLowerAscii c =
     (let n = (of_char c :: nat) in if 65 \<le> n \<and> n \<le> 90 then char_of (n + 32) else c)"

definition testCI :: "string \<Rightarrow> string \<Rightarrow> bool" where
  "testCI pat ua = includes_str (map toLowerAscii ua) (map toLowerAscii pat)"

definition detectDevice :: "string \<Rightarrow> string" where
  "detectDevice ua =
     (if testCI ''Mobi'' ua \<or> testCI ''Android'' ua then ''mobile''
      else if testCI ''Tablet'' ua \<or> testCI ''iPad'' ua then ''tablet''
      else ''desktop'')"

definition detectBrowser :: "string \<Rightarrow> string" where
  "detectBrowser ua =
     (if includes_str ua ''Chrome'' \<and> \<not> includes_str ua ''Edg'' then ''chrome''
      else if includes_str ua ''Firefox'' then ''firefox''
      else if includes_str ua ''Safari'' \<and> \<not> includes_str ua ''Chrome'' then ''safari''
      else if includes_str ua ''Edg'' then ''edge''
      else if includes_str ua ''Opera'' \<or> includes_str ua ''OPR'' then ''opera''
      else ''other'')"

definition detectOS :: "string \<Rightarrow> string" where
  "detectOS ua =
     (if includes_str ua ''Windows'' then ''windows''
      else if includes_str ua ''Mac OS'' then ''mac''
      else if includes_str ua ''Linux'' \<and> \<not> includes_str ua ''Android'' then ''linux''
      else if includes_str ua ''Android'' then ''android''
      else if includes_str ua ''iPhone'' \<or> includes_str ua ''iPad'' \<or> includes_str ua ''iOS'' then ''ios''
      else ''other'')"

subsection \<open>The database rows\<close>

text \<open>
  The Prisma schema is not part of the sources; the rows hold the fields the processor
  writes. Counters are database integers, modelled by unbounded \<open>int\<close>. The identifier
  of a Visitor row is generated by the database, here the next free number.
\<close>

record Visitor =
  v_id :: nat
  v_projectId :: string
  v_visitorId :: string
  v_userAgent :: string
  v_deviceType :: string
  v_browser :: string
  v_os :: string
  v_referrer :: "string option"
  v_utmSource :: "string option"
  v_utmMedium :: "string option"
  v_utmCampaign :: "string option"
  v_firstSeen :: int
  v_lastSeen :: int
  v_visitCount :: int
  v_pageViews :: int

datatype payload =
    NoData
  | SessionData "string option" "string option" bool
  | EventData IncomingEvent

record EventRow =
  ev_projectId :: "string option"
  ev_visitorId :: nat
  ev_experimentId :: "string option"
  ev_variantId :: "string option"
  ev_eventType :: "string option"
  ev_eventName :: "string option"
  ev_pageUrl :: "string option"
  ev_eventData :: payload

record VariantAssignment =
  as_visitorId :: nat
  as_experimentId :: string
  as_variantId :: string

record Variant =
  var_visitors :: int
  var_conversions :: int

record Experiment =
  exp_totalVisitors :: int
  exp_totalConversions :: int

record ExperimentGoal =
  eg_experimentId :: string
  eg_goalId :: string
  eg_conversions :: int

record GoalConversion =
  gc_goalId :: string
  gc_experimentId :: string
  gc_variantId :: string
  gc_visitorId :: nat
  gc_value :: "int option"
  gc_currency :: string
  gc_url :: "string option"
  gc_timestamp :: "int option"
  gc_goalType :: "string option"

record ExperimentDailyStat =
  ds_impressions :: int
  ds_conversions :: int
  ds_revenue :: int

datatype log_details =
    AssignedDetails "bool option" "string option"
  | ConversionDetails "string option" "int option" "string option"

record LiveLog =
  ll_experimentId :: string
  ll_visitorId :: "string option"
  ll_variantId :: string
  ll_logType :: string
  ll_message :: string
  ll_details :: log_details
  ll_expiresAt :: int

text \<open>
  The state the processor runs in: the tables, the number of database calls made so far,
  and the lines written by \<^verbatim>\<open>console.error\<close> and \<^verbatim>\<open>console.warn\<close> (their first
  argument; the two progress lines of \<^verbatim>\<open>console.log\<close> are not recorded). Variant and
  Experiment rows are found by their identifier, ExperimentDailyStat rows by their unique
  key (experimentId, date).
\<close>

record world =
  visitors :: "Visitor list"
  nextVisitorId :: nat
  events :: "EventRow list"
  assignments :: "VariantAssignment list"
  variants :: "string \<rightharpoonup> Variant"
  experiments :: "string \<rightharpoonup> Experiment"
  experimentGoals :: "ExperimentGoal list"
  goalConversions :: "GoalConversion list"
  dailyStats :: "(string \<times> int) \<rightharpoonup> ExperimentDailyStat"
  liveLogs :: "LiveLog list"
  calls :: nat
  console :: "string list"

subsection \<open>The environment\<close>

text \<open>
  What the processor takes from its platform. \<open>fails k n\<close> says that the database call
  number \<open>n\<close> of the run, if it is a call of kind \<open>k\<close>, throws (connection lost,
  constraint of the schema violated, ...): the source gives no condition for it, so the
  theorems quantify over it. \<open>clock n\<close> is the wall-clock time (milliseconds since the
  epoch) read while call \<open>n\<close> is prepared. \<open>localMidnight t\<close> is the time value of
  \<^verbatim>\<open>new Date(t)\<close> after \<^verbatim>\<open>setHours(0, 0, 0, 0)\<close>: the instant at which the local day
  that holds \<open>t\<close> begins, by the rules of the time zone of the process (its offsets and
  its daylight-saving changes), which the source does not fix. \<open>searchParams u\<close> is
  \<^verbatim>\<open>new URL(u).searchParams.get\<close>, \<open>None\<close> when the constructor throws.
  \<open>jsonParse d\<close> is \<^verbatim>\<open>JSON.parse\<close> of the base64-decoded body, \<open>None\<close> when it throws.
\<close>

datatype store_op =
    VisitorUpsert | VisitorUpdate | EventCreate | AssignmentFindUnique | AssignmentCreate
  | VariantUpdate | ExperimentUpdate | ExperimentGoalUpdateMany | GoalConversionCreate
  | DailyStatUpsert | LiveLogCreate

datatype parsed = ParsedArray "decoded list" | ParsedValue decoded

record env =
  fails :: "store_op \<Rightarrow> nat \<Rightarrow> bool"
  clock :: "nat \<Rightarrow> int"
  localMidnight :: "int \<Rightarrow> int"
  searchParams :: "string \<Rightarrow> (string \<Rightarrow> string option) option"
  jsonParse :: "string \<Rightarrow> parsed option"

subsection \<open>Awaited calls, exceptions\<close>

datatype error = StoreFault | RecordNotFound | UniqueViolation | ValidationError | TypeError

datatype 'a result = Ok 'a | Err error

type_synonym 'a io = "world \<Rightarrow> 'a result \<times> world"

definition ret_io :: "'a \<Rightarrow> 'a io" where
  "ret_io x s = (Ok x, s)"

definition throw_io :: "error \<Rightarrow> 'a io" where
  "throw_io e s = (Err e, s)"

text \<open>\<^verbatim>\<open>const x = await m; f(x)\<close>: an exception of \<open>m\<close> skips \<open>f\<close>.\<close>

definition bind_io :: "'a io \<Rightarrow> ('a \<Rightarrow> 'b io) \<Rightarrow> 'b io" where
  "bind_io m f s = (case m s of (Ok x, s') \<Rightarrow> f x s' | (Err e, s') \<Rightarrow> (Err e, s'))"

definition then_io :: "unit io \<Rightarrow> 'b io \<Rightarrow> 'b io" where
  "then_io m n = bind_io m (\<lambda>_. n)"

text \<open>\<^verbatim>\<open>try { m } catch (err) { h(err) }\<close>\<close>

definition catch_io :: "'a io \<Rightarrow> (error \<Rightarrow> 'a io) \<Rightarrow> 'a io" where
  "catch_io m h s = (case m s of (Ok x, s') \<Rightarrow> (Ok x, s') | (Err e, s') \<Rightarrow> h e s')"

definition consoleLine :: "string \<Rightarrow> unit io" where
  "consoleLine msg s = (Ok (), s\<lparr>console := console s @ [msg]\<rparr>)"

text \<open>One call of the Prisma client: it is counted, and throws when the environment says so.\<close>

definition storeCall :: "env \<Rightarrow> store_op \<Rightarrow> 'a io \<Rightarrow> 'a io" where
  "storeCall env k body s =
     (if fails env k (calls s) then (Err StoreFault, s\<lparr>calls := calls s + 1\<rparr>)
      else body (s\<lparr>calls := calls s + 1\<rparr>))"

subsection \<open>The Prisma operations the processor calls\<close>

fun updateFirst :: "('a \<Rightarrow> bool) \<Rightarrow> ('a \<Rightarrow> 'a) \<Rightarrow> 'a list \<Rightarrow> 'a list" where
  "updateFirst P f [] = []"
| "updateFirst P f (x # xs) = (if P x then f x # xs else x # updateFirst P f xs)"

definition lookupVisitor :: "string \<Rightarrow> string \<Rightarrow> world \<Rightarrow> Visitor option" where
  "lookupVisitor p v s = find (\<lambda>r. v_projectId r = p \<and> v_visitorId r = v) (visitors s)"

text \<open>\<^verbatim>\<open>db.visitor.upsert\<close> on the unique key (projectId, visitorId); returns the row.\<close>

definition db_visitor_upsert ::
  "env \<Rightarrow> string \<Rightarrow> string \<Rightarrow> (nat \<Rightarrow> Visitor) \<Rightarrow> (Visitor \<Rightarrow> Visitor) \<Rightarrow> Visitor io" where
  "db_visitor_upsert env p v create update =
     storeCall env VisitorUpsert (\<lambda>s.
       case lookupVisitor p v s of
         None \<Rightarrow>
           (Ok (create (nextVisitorId s)),
            s\<lparr>visitors := visitors s @ [create (nextVisitorId s)],
              nextVisitorId := nextVisitorId s + 1\<rparr>)
       | Some r \<Rightarrow>
           (Ok (update r),
            s\<lparr>visitors :=
                 updateFirst (\<lambda>r. v_projectId r = p \<and> v_visitorId r = v) update (visitors s)\<rparr>))"

text \<open>\<^verbatim>\<open>db.visitor.update\<close> by identifier: Prisma throws when no row has it.\<close>

definition db_visitor_update :: "env \<Rightarrow> nat \<Rightarrow> (Visitor \<Rightarrow> Visitor) \<Rightarrow> unit io" where
  "db_visitor_update env i f =
     storeCall env VisitorUpdate (\<lambda>s.
       case find (\<lambda>r. v_id r = i) (visitors s) of
         None \<Rightarrow> (Err RecordNotFound, s)
       | Some r \<Rightarrow> (Ok (), s\<lparr>visitors := updateFirst (\<lambda>r. v_id r = i) f (visitors s)\<rparr>))"

definition db_event_create :: "env \<Rightarrow> EventRow \<Rightarrow> unit io" where
  "db_event_create env row =
     storeCall env EventCreate (\<lambda>s. (Ok (), s\<lparr>events := events s @ [row]\<rparr>))"

definition findAssignment :: "nat \<Rightarrow> string \<Rightarrow> world \<Rightarrow> VariantAssignment option" where
  "findAssignment vid e s =
     find (\<lambda>a. as_visitorId a = vid \<and> as_experimentId a = e) (assignments s)"

definition db_variantAssignment_findUnique ::
  "env \<Rightarrow> nat \<Rightarrow> string \<Rightarrow> VariantAssignment option io" where
  "db_variantAssignment_findUnique env vid e =
     storeCall env AssignmentFindUnique (\<lambda>s. (Ok (findAssignment vid e s), s))"

text \<open>The pair (visitorId, experimentId) is a unique key of the table.\<close>

definition db_variantAssignment_create :: "env \<Rightarrow> VariantAssignment \<Rightarrow> unit io" where
  "db_variantAssignment_create env row =
     storeCall env AssignmentCreate (\<lambda>s.
       case findAssignment (as_visitorId row) (as_experimentId row) s of
         Some _ \<Rightarrow> (Err UniqueViolation, s)
       | None \<Rightarrow> (Ok (), s\<lparr>assignments := assignments s @ [row]\<rparr>))"

definition db_variant_update :: "env \<Rightarrow> string \<Rightarrow> (Variant \<Rightarrow> Variant) \<Rightarrow> unit io" where
  "db_variant_update env i f =
     storeCall env VariantUpdate (\<lambda>s.
       case variants s i of
         None \<Rightarrow> (Err RecordNotFound, s)
       | Some r \<Rightarrow> (Ok (), s\<lparr>variants := (variants s)(i \<mapsto> f r)\<rparr>))"

definition db_experiment_update :: "env \<Rightarrow> string \<Rightarrow> (Experiment \<Rightarrow> Experiment) \<Rightarrow> unit io" where
  "db_experiment_update env i f =
     storeCall env ExperimentUpdate (\<lambda>s.
       case experiments s i of
         None \<Rightarrow> (Err RecordNotFound, s)
       | Some r \<Rightarrow> (Ok (), s\<lparr>experiments := (experiments s)(i \<mapsto> f r)\<rparr>))"

text \<open>\<^verbatim>\<open>updateMany\<close> changes every row that matches, possibly none, and does not throw for that.\<close>

definition db_experimentGoal_updateMany ::
  "env \<Rightarrow> string \<Rightarrow> string \<Rightarrow> (ExperimentGoal \<Rightarrow> ExperimentGoal) \<Rightarrow> unit io" where
  "db_experimentGoal_updateMany env e g f =
     storeCall env ExperimentGoalUpdateMany (\<lambda>s.
       (Ok (), s\<lparr>experimentGoals :=
                   map (\<lambda>r. if eg_experimentId r = e \<and> eg_goalId r = g then f r else r)
                     (experimentGoals s)\<rparr>))"

definition db_goalConversion_create :: "env \<Rightarrow> GoalConversion \<Rightarrow> unit io" where
  "db_goalConversion_create env row =
     storeCall env GoalConversionCreate (\<lambda>s.
       (Ok (), s\<lparr>goalConversions := goalConversions s @ [row]\<rparr>))"

definition db_experimentDailyStat_upsert ::
  "env \<Rightarrow> string \<times> int \<Rightarrow> ExperimentDailyStat \<Rightarrow> (ExperimentDailyStat \<Rightarrow> ExperimentDailyStat)
   \<Rightarrow> unit io" where
  "db_experimentDailyStat_upsert env key create update =
     storeCall env DailyStatUpsert (\<lambda>s.
       case dailyStats s key of
         None \<Rightarrow> (Ok (), s\<lparr>dailyStats := (dailyStats s)(key \<mapsto> create)\<rparr>)
       | Some r \<Rightarrow> (Ok (), s\<lparr>dailyStats := (dailyStats s)(key \<mapsto> update r)\<rparr>))"

definition db_liveLog_create :: "env \<Rightarrow> LiveLog \<Rightarrow> unit io" where
  "db_liveLog_create env row =
     storeCall env LiveLogCreate (\<lambda>s. (Ok (), s\<lparr>liveLogs := liveLogs s @ [row]\<rparr>))"

subsection \<open>The processor\<close>

text \<open>
  \<^verbatim>\<open>const today = new Date(); today.setHours(0, 0, 0, 0)\<close>: midnight, in the local time
  of the process, of the day the clock shows.
\<close>

definition startOfLocalDay :: "env \<Rightarrow> int \<Rightarrow> int" where
  "startOfLocalDay env t = localMidnight env t"

datatype stat_field = Impressions | Conversions

text \<open>
  \<^verbatim>\<open>updateDailyStat(db, experimentId, field, revenue?)\<close>. Its own try/catch keeps a
  failure of the upsert from the caller.
\<close>

definition updateDailyStat :: "env \<Rightarrow> string \<Rightarrow> stat_field \<Rightarrow> int option \<Rightarrow> unit io" where
  "updateDailyStat env experimentId field revenue s =
     (let today = startOfLocalDay env (clock env (calls s)) in
      catch_io
        (db_experimentDailyStat_upsert env (experimentId, today)
           \<lparr>ds_impressions = (if field = Impressions then 1 else 0),
            ds_conversions = (if field = Conversions then 1 else 0),
            ds_revenue = numOrZero revenue\<rparr>
           (\<lambda>r. let r1 = (case field of
                            Impressions \<Rightarrow> r\<lparr>ds_impressions := ds_impressions r + 1\<rparr>
                          | Conversions \<Rightarrow> r\<lparr>ds_conversions := ds_conversions r + 1\<rparr>)
                in if truthyNum revenue \<and> field = Conversions
                   then r1\<lparr>ds_revenue := ds_revenue r1 + numOrZero revenue\<rparr> else r1))
        (\<lambda>err. consoleLine ''Daily stat update error:'') s)"

text \<open>
  \<^verbatim>\<open>upsertVisitor(db, evt)\<close>. \<open>newVisitor\<close> is the \<^verbatim>\<open>create\<close> argument of the upsert,
  with the classification of the user agent and the UTM parameters of the URL (unset when
  the URL does not parse); \<open>i\<close> is the identifier the database gives the row. Prisma
  rejects the call when a field of the unique key is \<^verbatim>\<open>undefined\<close> or the Date is
  invalid.
\<close>

definition newVisitor ::
  "env \<Rightarrow> IncomingEvent \<Rightarrow> string \<Rightarrow> string \<Rightarrow> int \<Rightarrow> nat \<Rightarrow> Visitor" where
  "newVisitor env evt projectId visitorId ts i =
     (let ua = orElse (evt_userAgent evt) [];
          deviceType = detectDevice ua;
          browser = detectBrowser ua;
          os = detectOS ua;
          params = (case evt_url evt of None \<Rightarrow> None | Some u \<Rightarrow> searchParams env u);
          utmSource = (case params of None \<Rightarrow> None | Some get \<Rightarrow> get ''utm_source'');
          utmMedium = (case params of None \<Rightarrow> None | Some get \<Rightarrow> get ''utm_medium'');
          utmCampaign = (case params of None \<Rightarrow> None | Some get \<Rightarrow> get ''utm_campaign'')
      in \<lparr>v_id = i, v_projectId = projectId, v_visitorId = visitorId,
          v_userAgent = ua, v_deviceType = deviceType, v_browser = browser,
          v_os = os, v_referrer = evt_referrer evt, v_utmSource = utmSource,
          v_utmMedium = utmMedium, v_utmCampaign = utmCampaign,
          v_firstSeen = ts, v_lastSeen = ts, v_visitCount = 1, v_pageViews = 1\<rparr>)"

definition upsertVisitor :: "env \<Rightarrow> IncomingEvent \<Rightarrow> Visitor io" where
  "upsertVisitor env evt =
     (case (evt_projectId evt, evt_visitorId evt, evt_timestamp evt) of
        (Some projectId, Some visitorId, Some ts) \<Rightarrow>
          db_visitor_upsert env projectId visitorId
            (newVisitor env evt projectId visitorId ts)
            (\<lambda>r. r\<lparr>v_lastSeen := ts, v_pageViews := v_pageViews r + 1\<rparr>)
      | _ \<Rightarrow> storeCall env VisitorUpsert (throw_io ValidationError))"

definition sessionEventRow :: "nat \<Rightarrow> IncomingEvent \<Rightarrow> EventRow" where
  "sessionEventRow visitorDbId evt =
     \<lparr>ev_projectId = evt_projectId evt, ev_visitorId = visitorDbId,
      ev_experimentId = None, ev_variantId = None,
      ev_eventType = Some ''PAGE_VIEW'', ev_eventName = None,
      ev_pageUrl = evt_url evt,
      ev_eventData = SessionData (evt_sessionId evt) (evt_referrer evt) True\<rparr>"

definition handleSessionStart :: "env \<Rightarrow> nat \<Rightarrow> IncomingEvent \<Rightarrow> unit io" where
  "handleSessionStart env visitorDbId evt =
     then_io
       (db_visitor_update env visitorDbId (\<lambda>r. r\<lparr>v_visitCount := v_visitCount r + 1\<rparr>))
       (db_event_create env (sessionEventRow visitorDbId evt))"

definition viewEventRow :: "nat \<Rightarrow> IncomingEvent \<Rightarrow> string \<Rightarrow> string \<Rightarrow> EventRow" where
  "viewEventRow visitorDbId evt experimentId variantId =
     \<lparr>ev_projectId = evt_projectId evt, ev_visitorId = visitorDbId,
      ev_experimentId = Some experimentId, ev_variantId = Some variantId,
      ev_eventType = Some ''EXPERIMENT_VIEW'', ev_eventName = None,
      ev_pageUrl = evt_url evt, ev_eventData = NoData\<rparr>"

definition viewLiveLog :: "IncomingEvent \<Rightarrow> string \<Rightarrow> string \<Rightarrow> int \<Rightarrow> LiveLog" where
  "viewLiveLog evt experimentId variantId now =
     \<lparr>ll_experimentId = experimentId, ll_visitorId = evt_visitorId evt,
      ll_variantId = variantId, ll_logType = ''VISITOR_ASSIGNED'',
      ll_message = ''Visitor assigned to '' @ orElse (evt_variantName evt) variantId,
      ll_details = AssignedDetails (evt_isControl evt) (evt_url evt),
      ll_expiresAt = now + 24 * 60 * 60 * 1000\<rparr>"

definition handleExperimentView :: "env \<Rightarrow> nat \<Rightarrow> IncomingEvent \<Rightarrow> unit io" where
  "handleExperimentView env visitorDbId evt =
     (case (evt_experimentId evt, evt_variantId evt) of
        (Some experimentId, Some variantId) \<Rightarrow>
          if experimentId = [] \<or> variantId = [] then ret_io ()
          else
            bind_io (db_variantAssignment_findUnique env visitorDbId experimentId)
              (\<lambda>existingAssignment.
                 then_io
                   (case existingAssignment of
                      Some _ \<Rightarrow> ret_io ()
                    | None \<Rightarrow>
                        then_io
                          (db_variantAssignment_create env
                             \<lparr>as_visitorId = visitorDbId, as_experimentId = experimentId,
                              as_variantId = variantId\<rparr>)
                       (then_io
                          (db_variant_update env variantId
                             (\<lambda>r. r\<lparr>var_visitors := var_visitors r + 1\<rparr>))
                       (then_io
                          (db_experiment_update env experimentId
                             (\<lambda>r. r\<lparr>exp_totalVisitors := exp_totalVisitors r + 1\<rparr>))
                          (updateDailyStat env experimentId Impressions None))))
                (then_io
                   (db_event_create env (viewEventRow visitorDbId evt experimentId variantId))
                   (\<lambda>s. db_liveLog_create env
                           (viewLiveLog evt experimentId variantId (clock env (calls s))) s)))
      | _ \<Rightarrow> ret_io ())"

definition conversionRow ::
  "nat \<Rightarrow> IncomingEvent \<Rightarrow> string \<Rightarrow> AttributedExperiment \<Rightarrow> GoalConversion" where
  "conversionRow visitorDbId evt goalId exp =
     \<lparr>gc_goalId = goalId, gc_experimentId = att_experimentId exp,
      gc_variantId = att_variantId exp, gc_visitorId = visitorDbId,
      gc_value = (if truthyNum (evt_value evt) then evt_value evt else None),
      gc_currency = orElse (evt_currency evt) ''TRY'',
      gc_url = evt_url evt, gc_timestamp = evt_timestamp evt,
      gc_goalType = evt_goalType evt\<rparr>"

definition conversionLiveLog ::
  "IncomingEvent \<Rightarrow> string \<Rightarrow> AttributedExperiment \<Rightarrow> int \<Rightarrow> LiveLog" where
  "conversionLiveLog evt goalId exp now =
     \<lparr>ll_experimentId = att_experimentId exp, ll_visitorId = evt_visitorId evt,
      ll_variantId = att_variantId exp, ll_logType = ''GOAL_CONVERSION'',
      ll_message = ''Goal \"'' @ orElse (evt_goalName evt) goalId @ ''\" converted'',
      ll_details = ConversionDetails (evt_goalType evt) (evt_value evt) (evt_url evt),
      ll_expiresAt = now + 24 * 60 * 60 * 1000\<rparr>"

text \<open>The body of the loop over \<^verbatim>\<open>attributedExperiments\<close>: six awaited calls.\<close>

definition attributionBody ::
  "env \<Rightarrow> nat \<Rightarrow> IncomingEvent \<Rightarrow> string \<Rightarrow> AttributedExperiment \<Rightarrow> unit io" where
  "attributionBody env visitorDbId evt goalId exp =
     then_io (db_goalConversion_create env (conversionRow visitorDbId evt goalId exp))
    (then_io (db_variant_update env (att_variantId exp)
                (\<lambda>r. r\<lparr>var_conversions := var_conversions r + 1\<rparr>))
    (then_io (db_experiment_update env (att_experimentId exp)
                (\<lambda>r. r\<lparr>exp_totalConversions := exp_totalConversions r + 1\<rparr>))
    (then_io (db_experimentGoal_updateMany env (att_experimentId exp) goalId
                (\<lambda>r. r\<lparr>eg_conversions := eg_conversions r + 1\<rparr>))
    (then_io (updateDailyStat env (att_experimentId exp) Conversions (evt_value evt))
             (\<lambda>s. db_liveLog_create env
                     (conversionLiveLog evt goalId exp (clock env (calls s))) s)))))"

fun attributionLoop ::
  "env \<Rightarrow> nat \<Rightarrow> IncomingEvent \<Rightarrow> string \<Rightarrow> AttributedExperiment list \<Rightarrow> unit io" where
  "attributionLoop env visitorDbId evt goalId [] = ret_io ()"
| "attributionLoop env visitorDbId evt goalId (exp # rest) =
     then_io (attributionBody env visitorDbId evt goalId exp)
             (attributionLoop env visitorDbId evt goalId rest)"

definition handleGoalConversion :: "env \<Rightarrow> nat \<Rightarrow> IncomingEvent \<Rightarrow> unit io" where
  "handleGoalConversion env visitorDbId evt =
     (case (evt_goalId evt, evt_attributedExperiments evt) of
        (Some goalId, Some attributedExperiments) \<Rightarrow>
          if goalId = [] \<or> attributedExperiments = [] then ret_io ()
          else attributionLoop env visitorDbId evt goalId attributedExperiments
      | _ \<Rightarrow> ret_io ())"

definition handleCustomEvent :: "env \<Rightarrow> nat \<Rightarrow> IncomingEvent \<Rightarrow> unit io" where
  "handleCustomEvent env visitorDbId evt =
     db_event_create env
       \<lparr>ev_projectId = evt_projectId evt, ev_visitorId = visitorDbId,
        ev_experimentId = (case evt_attributedExperiments evt of
                             Some (a # _) \<Rightarrow> Some (att_experimentId a) | _ \<Rightarrow> None),
        ev_variantId = (case evt_attributedExperiments evt of
                          Some (a # _) \<Rightarrow> Some (att_variantId a) | _ \<Rightarrow> None),
        ev_eventType = Some ''CUSTOM'', ev_eventName = evt_eventName evt,
        ev_pageUrl = evt_url evt, ev_eventData = EventData evt\<rparr>"

definition handleGenericEvent :: "env \<Rightarrow> nat \<Rightarrow> IncomingEvent \<Rightarrow> unit io" where
  "handleGenericEvent env visitorDbId evt =
     db_event_create env
       \<lparr>ev_projectId = evt_projectId evt, ev_visitorId = visitorDbId,
        ev_experimentId = None, ev_variantId = None,
        ev_eventType = evt_eventType evt, ev_eventName = None,
        ev_pageUrl = evt_url evt, ev_eventData = EventData evt\<rparr>"

definition processEvent :: "env \<Rightarrow> IncomingEvent \<Rightarrow> unit io" where
  "processEvent env evt =
     (if \<not> truthy (evt_projectId evt) \<or> \<not> truthy (evt_visitorId evt)
         \<or> \<not> truthy (evt_eventType evt)
      then consoleLine ''Missing required fields:''
      else
        bind_io (upsertVisitor env evt)
          (\<lambda>visitor.
             if evt_eventType evt = Some ''SESSION_START''
               then handleSessionStart env (v_id visitor) evt
             else if evt_eventType evt = Some ''EXPERIMENT_VIEW''
               then handleExperimentView env (v_id visitor) evt
             else if evt_eventType evt = Some ''GOAL_CONVERSION''
               then handleGoalConversion env (v_id visitor) evt
             else if evt_eventType evt = Some ''CUSTOM_EVENT''
               then handleCustomEvent env (v_id visitor) evt
             else handleGenericEvent env (v_id visitor) evt))"

text \<open>
  \<^verbatim>\<open>processEvent(db, evt)\<close> on a decoded value: destructuring \<^verbatim>\<open>null\<close> throws a
  TypeError before anything is written.
\<close>

definition processDecoded :: "env \<Rightarrow> decoded \<Rightarrow> unit io" where
  "processDecoded env d =
     (case d of JNull \<Rightarrow> throw_io TypeError | JEvent evt \<Rightarrow> processEvent env evt)"

text \<open>The inner loop of the handler, with its try/catch around every event.\<close>

definition tryEvent :: "env \<Rightarrow> decoded \<Rightarrow> unit io" where
  "tryEvent env d =
     catch_io (processDecoded env d) (\<lambda>err. consoleLine ''Event processing error:'')"

fun eventsLoop :: "env \<Rightarrow> decoded list \<Rightarrow> world \<Rightarrow> world" where
  "eventsLoop env [] s = s"
| "eventsLoop env (d # rest) s = eventsLoop env rest (snd (tryEvent env d s))"

definition processRecord :: "env \<Rightarrow> FirehoseRecord \<Rightarrow> world \<Rightarrow> OutputRecord \<times> world" where
  "processRecord env rcd s =
     (case jsonParse env (rec_data rcd) of
        None \<Rightarrow>
          (\<lparr>out_recordId = rec_recordId rcd, out_result = ProcessingFailed,
            out_data = rec_data rcd\<rparr>,
           snd (consoleLine ''Invalid JSON:'' s))
      | Some p \<Rightarrow>
          (\<lparr>out_recordId = rec_recordId rcd, out_result = Ok_tag, out_data = rec_data rcd\<rparr>,
           eventsLoop env (case p of ParsedArray ds \<Rightarrow> ds | ParsedValue d \<Rightarrow> [d]) s))"

fun handler :: "env \<Rightarrow> FirehoseRecord list \<Rightarrow> world \<Rightarrow> OutputRecord list \<times> world" where
  "handler env [] s = ([], s)"
| "handler env (rcd # rest) s =
     (case processRecord env rcd s of
        (out, s') \<Rightarrow> (case handler env rest s' of (outs, s'') \<Rightarrow> (out # outs, s'')))"

subsection \<open>Relations between the database before and after a call\<close>

text \<open>
  \<open>io_rel R m\<close>: whatever the database and whatever the outcome, running \<open>m\<close> leaves
  a database related by \<open>R\<close> to the one it started from.
\<close>

definition io_rel :: "(world \<Rightarrow> world \<Rightarrow> bool) \<Rightarrow> 'a io \<Rightarrow> bool" where
  "io_rel R m = (\<forall>s. R s (snd (m s)))"

definition preorder_rel :: "(world \<Rightarrow> world \<Rightarrow> bool) \<Rightarrow> bool" where
  "preorder_rel R = ((\<forall>s. R s s) \<and> (\<forall>a b c. R a b \<longrightarrow> R b c \<longrightarrow> R a c))"

text \<open>The Visitor table is the same, and so is the next free identifier.\<close>

definition sameVisitors :: "world \<Rightarrow> world \<Rightarrow> bool" where
  "sameVisitors s s' = (visitors s' = visitors s \<and> nextVisitorId s' = nextVisitorId s)"

text \<open>
  \<open>calls_keep env R\<close>: \<open>R\<close> is reflexive and transitive and is kept by every call the
  processing of one event can make (the daily-stat touch as a whole, with its clock
  reading, and the one console line written inside \<^verbatim>\<open>processEvent\<close>).
\<close>

definition calls_keep :: "env \<Rightarrow> (world \<Rightarrow> world \<Rightarrow> bool) \<Rightarrow> bool" where
  "calls_keep env R =
     (preorder_rel R
      \<and> (\<forall>p v c u. io_rel R (db_visitor_upsert env p v c u))
      \<and> io_rel R (storeCall env VisitorUpsert (throw_io ValidationError :: Visitor io))
      \<and> (\<forall>i f. io_rel R (db_visitor_update env i f))
      \<and> (\<forall>row. io_rel R (db_event_create env row))
      \<and> (\<forall>i e. io_rel R (db_variantAssignment_findUnique env i e))
      \<and> (\<forall>row. io_rel R (db_variantAssignment_create env row))
      \<and> (\<forall>i f. io_rel R (db_variant_update env i f))
      \<and> (\<forall>i f. io_rel R (db_experiment_update env i f))
      \<and> (\<forall>e g f. io_rel R (db_experimentGoal_updateMany env e g f))
      \<and> (\<forall>row. io_rel R (db_goalConversion_create env row))
      \<and> (\<forall>e f r. io_rel R (updateDailyStat env e f r))
      \<and> (\<forall>lf. io_rel R (\<lambda>s. db_liveLog_create env (lf s) s))
      \<and> io_rel R (consoleLine ''Missing required fields:''))"

text \<open>An assignment of the pair, once there, is still there.\<close>

definition keepsAssignment :: "nat \<Rightarrow> string \<Rightarrow> world \<Rightarrow> world \<Rightarrow> bool" where
  "keepsAssignment i e s s' = (findAssignment i e s \<noteq> None \<longrightarrow> findAssignment i e s' \<noteq> None)"

text \<open>
  The daily-stat row after one conversion touch carrying the event's value: created with
  conversions 1, or incremented.
\<close>

definition conversionTouch :: "int option \<Rightarrow> ExperimentDailyStat option \<Rightarrow> ExperimentDailyStat" where
  "conversionTouch revenue old =
     (case old of
        None \<Rightarrow> \<lparr>ds_impressions = 0, ds_conversions = 1, ds_revenue = numOrZero revenue\<rparr>
      | Some r \<Rightarrow> r\<lparr>ds_conversions := ds_conversions r + 1,
                     ds_revenue := ds_revenue r + numOrZero revenue\<rparr>)"

text \<open>
  The database after the six calls of the loop body for one attribution, when none of
  them throws: the calls are numbered from \<open>calls s\<close>, the daily-stat touch is the fifth
  and the Live Log entry the sixth.
\<close>

definition afterAttribution ::
  "env \<Rightarrow> nat \<Rightarrow> IncomingEvent \<Rightarrow> string \<Rightarrow> AttributedExperiment \<Rightarrow> world \<Rightarrow> world" where
  "afterAttribution env visitorDbId evt goalId exp s =
     s\<lparr>goalConversions := goalConversions s @ [conversionRow visitorDbId evt goalId exp],
       variants := (case variants s (att_variantId exp) of
                      None \<Rightarrow> variants s
                    | Some r \<Rightarrow> (variants s)(att_variantId exp \<mapsto>
                                  r\<lparr>var_conversions := var_conversions r + 1\<rparr>)),
       experiments := (case experiments s (att_experimentId exp) of
                      None \<Rightarrow> experiments s
                    | Some r \<Rightarrow> (experiments s)(att_experimentId exp \<mapsto>
                                  r\<lparr>exp_totalConversions := exp_totalConversions r + 1\<rparr>)),
       experimentGoals :=
         map (\<lambda>r. if eg_experimentId r = att_experimentId exp \<and> eg_goalId r = goalId
                  then r\<lparr>eg_conversions := eg_conversions r + 1\<rparr> else r)
           (experimentGoals s),
       dailyStats :=
         (dailyStats s)((att_experimentId exp, startOfLocalDay env (clock env (calls s + 4))) \<mapsto>
            conversionTouch (evt_value evt)
              (dailyStats s (att_experimentId exp, startOfLocalDay env (clock env (calls s + 4))))),
       liveLogs := liveLogs s @ [conversionLiveLog evt goalId exp (clock env (calls s + 5))],
       calls := calls s + 6\<rparr>"

fun afterAttributions ::
  "env \<Rightarrow> nat \<Rightarrow> IncomingEvent \<Rightarrow> string \<Rightarrow> AttributedExperiment list \<Rightarrow> world \<Rightarrow> world" where
  "afterAttributions env visitorDbId evt goalId [] s = s"
| "afterAttributions env visitorDbId evt goalId (exp # rest) s =
     afterAttributions env visitorDbId evt goalId rest
       (afterAttribution env visitorDbId evt goalId exp s)"

text \<open>The keys of the daily-stat touches of a loop that starts at call number \<open>c\<close>.\<close>

fun touchKeys :: "env \<Rightarrow> nat \<Rightarrow> AttributedExperiment list \<Rightarrow> (string \<times> int) list" where
  "touchKeys env c [] = []"
| "touchKeys env c (exp # rest) =
     (att_experimentId exp, startOfLocalDay env (clock env (c + 4))) # touchKeys env (c + 6) rest"

text \<open>The Live Log entries of a loop that starts at call number \<open>c\<close>.\<close>

fun conversionLogs ::
  "env \<Rightarrow> nat \<Rightarrow> IncomingEvent \<Rightarrow> string \<Rightarrow> AttributedExperiment list \<Rightarrow> LiveLog list" where
  "conversionLogs env c evt goalId [] = []"
| "conversionLogs env c evt goalId (exp # rest) =
     conversionLiveLog evt goalId exp (clock env (c + 5)) # conversionLogs env (c + 6) evt goalId rest"

text \<open>The conversions and the revenue a daily-stat key holds, 0 when it has no row.\<close>

definition dsConversions :: "world \<Rightarrow> string \<times> int \<Rightarrow> int" where
  "dsConversions s key = (case dailyStats s key of None \<Rightarrow> 0 | Some r \<Rightarrow> ds_conversions r)"

definition dsRevenue :: "world \<Rightarrow> string \<times> int \<Rightarrow> int" where
  "dsRevenue s key = (case dailyStats s key of None \<Rightarrow> 0 | Some r \<Rightarrow> ds_revenue r)"

text \<open>The number of lines the handler's inner catch has written.\<close>

definition errorLines :: "world \<Rightarrow> nat" where
  "errorLines s = count_list (console s) ''Event processing error:''"

definition sameErrorLines :: "world \<Rightarrow> world \<Rightarrow> bool" where
  "sameErrorLines s s' = (errorLines s' = errorLines s)"

text \<open>
  The outcome of every event of a record, in order, each event run on the database its
  predecessors left.
\<close>

fun outcomes :: "env \<Rightarrow> decoded list \<Rightarrow> world \<Rightarrow> unit result list" where
  "outcomes env [] s = []"
| "outcomes env (d # rest) s =
     fst (processDecoded env d s) # outcomes env rest (snd (tryEvent env d s))"

fun failed :: "'a result \<Rightarrow> bool" where
  "failed (Ok x) = False"
| "failed (Err e) = True"

text \<open>
  Every row the processing changes in the ExperimentDailyStat table is keyed by the local
  midnight of a clock reading taken during the processing.
\<close>

definition dailyKeyed :: "env \<Rightarrow> world \<Rightarrow> world \<Rightarrow> bool" where
  "dailyKeyed env s s' =
     (calls s \<le> calls s'
      \<and> (\<forall>key. dailyStats s' key \<noteq> dailyStats s key \<longrightarrow>
            (\<exists>n. calls s \<le> n \<and> n < calls s'
                 \<and> snd key = startOfLocalDay env (clock env n))))"

text \<open>The same run with every failure of a Live Log insert taken away.\<close>

definition withLiveLog :: "env \<Rightarrow> env" where
  "withLiveLog env = env\<lparr>fails := (fails env)(LiveLogCreate := (\<lambda>n. False))\<rparr>"

text \<open>Two computations leave the same database but for the Live Log table.\<close>

definition eq_but_logs :: "'a io \<Rightarrow> 'b io \<Rightarrow> bool" where
  "eq_but_logs m m' = (\<forall>s L. (snd (m s))\<lparr>liveLogs := L\<rparr> = (snd (m' s))\<lparr>liveLogs := L\<rparr>)"

text \<open>
  The identifiers of the Visitor rows are unique and below the next free one: what the
  database guarantees for a generated primary key.
\<close>

definition visitorIdsOk :: "world \<Rightarrow> bool" where
  "visitorIdsOk s =
     (distinct (map v_id (visitors s)) \<and> (\<forall>r\<in>set (visitors s). v_id r < nextVisitorId s))"

text \<open>
  The same run in which the database refuses call number \<open>n\<close> and every call after it.
\<close>

definition cutAt :: "env \<Rightarrow> nat \<Rightarrow> env" where
  "cutAt env n = env\<lparr>fails := (\<lambda>k m. fails env k m \<or> n \<le> m)\<rparr>"

text \<open>
  \<open>m' n\<close> being the computation \<open>m\<close> in the run cut at \<open>n\<close>: \<open>m\<close> counts its calls; a cut
  at or after its last call changes nothing; and when \<open>m\<close> throws, it has made a call, and
  cutting the run at its last call leaves the same database and throws as well. So the
  exception comes from the last call, and \<open>m\<close> writes nothing after it.
\<close>

definition cut_run :: "'a io \<Rightarrow> (nat \<Rightarrow> 'a io) \<Rightarrow> bool" where
  "cut_run m m' =
     (\<forall>s. calls s \<le> calls (snd (m s))
          \<and> (\<forall>n. calls (snd (m s)) \<le> n \<longrightarrow> m' n s = m s)
          \<and> (failed (fst (m s)) \<longrightarrow>
                calls s < calls (snd (m s))
                \<and> snd (m' (calls (snd (m s)) - 1) s) = snd (m s)
                \<and> failed (fst (m' (calls (snd (m s)) - 1) s))))"

text \<open>Every row changed in the ExperimentDailyStat table belongs to an experiment of \<open>E\<close>.\<close>

definition statsWithin :: "string set \<Rightarrow> world \<Rightarrow> world \<Rightarrow> bool" where
  "statsWithin E s s' = (\<forall>key. dailyStats s' key \<noteq> dailyStats s key \<longrightarrow> fst key \<in> E)"

text \<open>
  The experiments whose daily statistics an event can touch: the experiment of a view,
  the experiments of the attributions of a conversion.
\<close>

definition touchedExperiments :: "IncomingEvent \<Rightarrow> string set" where
  "touchedExperiments evt =
     (if evt_eventType evt = Some ''EXPERIMENT_VIEW''
        then (case evt_experimentId evt of None \<Rightarrow> {} | Some e \<Rightarrow> {e})
      else if evt_eventType evt = Some ''GOAL_CONVERSION''
        then (case evt_attributedExperiments evt of
                None \<Rightarrow> {} | Some atts \<Rightarrow> set (map att_experimentId atts))
      else {})"

subsection \<open>Sample inputs\<close>

text \<open>
  A run without failures whose clock stands at 2024-01-03T12:00:00Z in a process on UTC,
  an empty database, and an event of visitor "v1" of project "p1" stamped
  2024-01-01T12:00:00Z with no other field set.
\<close>

definition env0 :: env where
  "env0 = \<lparr>fails = (\<lambda>k n. False), clock = (\<lambda>n. 1704283200000),
           localMidnight = (\<lambda>t. t - t mod 86400000),
           searchParams = (\<lambda>u. None), jsonParse = (\<lambda>d. None)\<rparr>"

definition world0 :: world where
  "world0 = \<lparr>visitors = [], nextVisitorId = 0, events = [], assignments = [],
             variants = Map.empty, experiments = Map.empty, experimentGoals = [],
             goalConversions = [], dailyStats = Map.empty, liveLogs = [], calls = 0,
             console = []\<rparr>"

definition evt0 :: IncomingEvent where
  "evt0 = \<lparr>evt_projectId = Some ''p1'', evt_visitorId = Some ''v1'', evt_sessionId = None,
           evt_timestamp = Some 1704110400000, evt_eventType = None, evt_url = None,
           evt_experimentId = None, evt_variantId = None, evt_variantName = None,
           evt_isControl = None, evt_goalId = None, evt_goalName = None, evt_goalType = None,
           evt_attributedExperiments = None, evt_eventName = None, evt_value = None,
           evt_currency = None, evt_userAgent = None, evt_referrer = None\<rparr>"

text \<open>The database after that visitor's first event.\<close>

definition world1 :: world where
  "world1 = world0\<lparr>visitors := [newVisitor env0 evt0 ''p1'' ''v1'' 1704110400000 0],
                   nextVisitorId := 1\<rparr>"

text \<open>
  The same with a variant, an experiment and an experiment goal; then with the visitor
  assigned; and a view of that experiment by that visitor.
\<close>

definition world2 :: world where
  "world2 = world1\<lparr>variants := [''var1'' \<mapsto> \<lparr>var_visitors = 0, var_conversions = 0\<rparr>],
                   experiments := [''exp1'' \<mapsto> \<lparr>exp_totalVisitors = 0, exp_totalConversions = 0\<rparr>],
                   experimentGoals := [\<lparr>eg_experimentId = ''exp1'', eg_goalId = ''g1'',
                                        eg_conversions = 0\<rparr>]\<rparr>"

definition world3 :: world where
  "world3 = world2\<lparr>assignments := [\<lparr>as_visitorId = 0, as_experimentId = ''exp1'',
                                    as_variantId = ''var1''\<rparr>]\<rparr>"

definition evtView :: IncomingEvent where
  "evtView = evt0\<lparr>evt_eventType := Some ''EXPERIMENT_VIEW'', evt_experimentId := Some ''exp1'',
                  evt_variantId := Some ''var1''\<rparr>"

text \<open>A conversion credited twice to the same experiment and variant, worth 50.\<close>

definition evtConversion :: IncomingEvent where
  "evtConversion =
     evt0\<lparr>evt_eventType := Some ''GOAL_CONVERSION'', evt_goalId := Some ''g1'',
          evt_attributedExperiments :=
            Some [\<lparr>att_experimentId = ''exp1'', att_variantId = ''var1''\<rparr>,
                  \<lparr>att_experimentId = ''exp1'', att_variantId = ''var1''\<rparr>],
          evt_value := Some 50\<rparr>"

text \<open>
  A run in which the second database call fails when it is an Event insert, and a record
  whose body decodes to three events: a page view, a click and the experiment view.
\<close>

definition env1 :: env where
  "env1 = env0\<lparr>fails := (\<lambda>k n. k = EventCreate \<and> n = 1),
               jsonParse := (\<lambda>d. if d = ''batch-1''
                 then Some (ParsedArray [JEvent (evt0\<lparr>evt_eventType := Some ''PAGE_VIEW''\<rparr>),
                                         JEvent (evt0\<lparr>evt_eventType := Some ''CLICK''\<rparr>),
                                         JEvent evtView])
                 else None)\<rparr>"

definition record1 :: FirehoseRecord where
  "record1 = \<lparr>rec_recordId = ''r1'', rec_data = ''batch-1''\<rparr>"

text \<open>A run in which every Live Log insert fails and nothing else does.\<close>

definition envLogFails :: env where
  "envLogFails = env0\<lparr>fails := (\<lambda>k n. k = LiveLogCreate)\<rparr>"

text \<open>
  A run in which every Variant update fails and nothing else does, and in which the body
  of every record decodes to the conversion credited twice.
\<close>

definition envVariantFails :: env where
  "envVariantFails =
     env0\<lparr>fails := (\<lambda>k n. k = VariantUpdate),
          jsonParse := (\<lambda>d. Some (ParsedValue (JEvent evtConversion)))\<rparr>"

text \<open>
  A process in New York on 2024-11-03, the day daylight saving ends there: the local day
  runs 25 hours, from 04:00Z to 05:00Z of the next day, and the clock shows 23:30 EST.
  (For other instants the rule is that of standard time; none is read in this run.)
\<close>

definition envNewYork :: env where
  "envNewYork =
     env0\<lparr>clock := (\<lambda>n. 1730694600000),
          localMidnight := (\<lambda>t. if 1730606400000 \<le> t \<and> t < 1730696400000 then 1730606400000
                                 else t - (t - 18000000) mod 86400000)\<rparr>"

section \<open>Properties\<close>

subsection \<open>Substring test\<close>

lemma includes_sublist: "includes_str ua sub = sublist sub ua"
  by (induction ua) (auto simp: sublist_Cons_right)

lemma includes_append_left: "includes_str ys sub \<Longrightarrow> includes_str (xs @ ys) sub"
  by (simp add: includes_sublist sublist_append)

subsection \<open>Browser classification\<close>

text \<open>
  C8, as stated, fails: a user agent that contains "Chrome", "Edg" and also "Firefox" is
  classified "firefox", because the Firefox rule stands before the Edge rule.
\<close>

theorem C8_counterexample:
  "includes_str ''Chrome Edg Firefox'' ''Chrome'' \<and> includes_str ''Chrome Edg Firefox'' ''Edg''
   \<and> detectBrowser ''Chrome Edg Firefox'' = ''firefox''
   \<and> detectBrowser ''Chrome Edg Firefox'' \<noteq> ''edge''"
  by (simp add: detectBrowser_def)

text \<open>
  C8, amended: a user agent that contains both "Chrome" and "Edg" is never classified
  "chrome"; it is classified "firefox" when it also contains "Firefox" and "edge"
  otherwise.
\<close>

theorem C8_chrome_and_edg:
  assumes "includes_str ua ''Chrome''" and "includes_str ua ''Edg''"
  shows "detectBrowser ua = (if includes_str ua ''Firefox'' then ''firefox'' else ''edge'')
         \<and> detectBrowser ua \<noteq> ''chrome''"
  using assms by (simp add: detectBrowser_def)

theorem C8_chrome_and_edg_witness:
  "detectBrowser ''Chrome/120.0 Safari/537.36 Edg/120.0'' = ''edge''
   \<and> detectBrowser ''Chrome/120.0 Safari/537.36 Edg/120.0'' \<noteq> ''chrome''"
proof -
  have c: "includes_str ''Chrome/120.0 Safari/537.36 Edg/120.0'' ''Chrome''" by simp
  have e: "includes_str ''Chrome/120.0 Safari/537.36 Edg/120.0'' ''Edg''" by simp
  have f: "\<not> includes_str ''Chrome/120.0 Safari/537.36 Edg/120.0'' ''Firefox''" by simp
  show ?thesis using C8_chrome_and_edg [OF c e] f by simp
qed

subsection \<open>Unfolding the calls\<close>

lemmas io_defs =
  ret_io_def throw_io_def bind_io_def then_io_def catch_io_def consoleLine_def storeCall_def

lemmas db_defs =
  db_visitor_upsert_def db_visitor_update_def db_event_create_def
  db_variantAssignment_findUnique_def db_variantAssignment_create_def db_variant_update_def
  db_experiment_update_def db_experimentGoal_updateMany_def db_goalConversion_create_def
  db_experimentDailyStat_upsert_def db_liveLog_create_def

lemmas ex_defs = env0_def world0_def evt0_def

lemma snd_bind_ret_unit: "snd (bind_io m (\<lambda>x. ret_io ()) s) = snd (m s)"
  by (simp add: bind_io_def ret_io_def split: prod.splits result.splits)

text \<open>The Visitor upsert changes the Visitor table and the call counter, nothing else.\<close>

lemma upsertVisitor_frame:
  "(snd (upsertVisitor env evt s))\<lparr>visitors := visitors s,
      nextVisitorId := nextVisitorId s, calls := calls s\<rparr> = s"
  by (simp add: upsertVisitor_def Let_def io_defs db_defs split: option.splits)

subsection \<open>Events that their handler ignores\<close>

lemma view_noop:
  assumes "\<not> truthy (evt_experimentId evt) \<or> \<not> truthy (evt_variantId evt)"
  shows "handleExperimentView env visitorDbId evt = ret_io ()"
  using assms
  by (cases "evt_experimentId evt"; cases "evt_variantId evt")
     (auto simp: handleExperimentView_def)

lemma conversion_noop:
  assumes "\<not> truthy (evt_goalId evt) \<or> evt_attributedExperiments evt = None
           \<or> evt_attributedExperiments evt = Some []"
  shows "handleGoalConversion env visitorDbId evt = ret_io ()"
  using assms
  by (cases "evt_goalId evt"; cases "evt_attributedExperiments evt")
     (auto simp: handleGoalConversion_def)

text \<open>
  C10: an EXPERIMENT_VIEW event without experimentId or without variantId (absent or
  empty) makes the view handler return at once, with the database as it was; processing
  the whole event leaves the database as the Visitor upsert before the routing leaves it,
  that is, changed in the Visitor table (and the call counter) only.
\<close>

theorem C10_view_without_ids:
  assumes "evt_eventType evt = Some ''EXPERIMENT_VIEW''"
    and "\<not> truthy (evt_experimentId evt) \<or> \<not> truthy (evt_variantId evt)"
    and "truthy (evt_projectId evt)" and "truthy (evt_visitorId evt)"
  shows "handleExperimentView env visitorDbId evt s = (Ok (), s)
       \<and> snd (processEvent env evt s) = snd (upsertVisitor env evt s)
       \<and> (snd (processEvent env evt s))\<lparr>visitors := visitors s,
             nextVisitorId := nextVisitorId s, calls := calls s\<rparr> = s"
proof -
  have h: "handleExperimentView env i evt = ret_io ()" for i
    using assms(2) by (rule view_noop)
  have p: "snd (processEvent env evt s) = snd (upsertVisitor env evt s)"
    using assms(1,3,4) by (simp add: processEvent_def h snd_bind_ret_unit)
  show ?thesis
    by (simp add: h p upsertVisitor_frame) (simp add: ret_io_def)
qed

theorem C10_view_without_ids_witness:
  "visitors (snd (processEvent env0
      (evt0\<lparr>evt_eventType := Some ''EXPERIMENT_VIEW'', evt_experimentId := Some ''e1''\<rparr>)
      world0)) \<noteq> []
   \<and> (snd (processEvent env0
      (evt0\<lparr>evt_eventType := Some ''EXPERIMENT_VIEW'', evt_experimentId := Some ''e1''\<rparr>)
      world0))\<lparr>visitors := [], nextVisitorId := 0, calls := 0\<rparr> = world0"
proof -
  let ?e = "evt0\<lparr>evt_eventType := Some ''EXPERIMENT_VIEW'', evt_experimentId := Some ''e1''\<rparr>"
  have 1: "evt_eventType ?e = Some ''EXPERIMENT_VIEW''" by (simp add: evt0_def)
  have 2: "\<not> truthy (evt_experimentId ?e) \<or> \<not> truthy (evt_variantId ?e)"
    by (simp add: evt0_def)
  have 3: "truthy (evt_projectId ?e)" by (simp add: evt0_def)
  have 4: "truthy (evt_visitorId ?e)" by (simp add: evt0_def)
  have v: "visitors (snd (upsertVisitor env0 ?e world0)) \<noteq> []"
    by (simp add: upsertVisitor_def ex_defs Let_def io_defs db_defs lookupVisitor_def)
  have w: "visitors world0 = []" "nextVisitorId world0 = 0" "calls world0 = 0"
    by (simp_all add: world0_def)
  note t = C10_view_without_ids [OF 1 2 3 4, of env0 0 world0]
  have p: "snd (processEvent env0 ?e world0) = snd (upsertVisitor env0 ?e world0)"
    using t by (rule conjunct2 [THEN conjunct1])
  have f: "(snd (processEvent env0 ?e world0))\<lparr>visitors := [], nextVisitorId := 0,
             calls := 0\<rparr> = world0"
    using t [THEN conjunct2, THEN conjunct2] by (simp only: w)
  show ?thesis
    using v f unfolding p by (rule conjI)
qed

text \<open>
  C3, as stated, fails: a GOAL_CONVERSION event with an empty attribution list, sent for a
  visitor the database does not know, creates a Visitor row, because the Visitor upsert
  runs before the routing.
\<close>

theorem C3_counterexample:
  "evt_attributedExperiments
     (evt0\<lparr>evt_eventType := Some ''GOAL_CONVERSION'', evt_goalId := Some ''g1'',
           evt_attributedExperiments := Some []\<rparr>) = Some []
   \<and> visitors world0 = []
   \<and> length (visitors (snd (processEvent env0
        (evt0\<lparr>evt_eventType := Some ''GOAL_CONVERSION'', evt_goalId := Some ''g1'',
              evt_attributedExperiments := Some []\<rparr>) world0))) = 1"
  by (simp add: processEvent_def handleGoalConversion_def upsertVisitor_def ex_defs Let_def
        io_defs db_defs lookupVisitor_def)

text \<open>
  C3, amended: for a GOAL_CONVERSION event whose attribution list is empty or absent, or
  whose goalId is absent or empty, the conversion handler returns at once with the
  database as it was (no GoalConversion, Event or LiveLog row, no counter changed);
  processing the whole event leaves the database as the Visitor upsert before the
  routing leaves it, that is, changed in the Visitor table (and the call counter) only.
\<close>

theorem C3_conversion_without_attribution:
  assumes "evt_eventType evt = Some ''GOAL_CONVERSION''"
    and "\<not> truthy (evt_goalId evt) \<or> evt_attributedExperiments evt = None
         \<or> evt_attributedExperiments evt = Some []"
    and "truthy (evt_projectId evt)" and "truthy (evt_visitorId evt)"
  shows "handleGoalConversion env visitorDbId evt s = (Ok (), s)
       \<and> snd (processEvent env evt s) = snd (upsertVisitor env evt s)
       \<and> (snd (processEvent env evt s))\<lparr>visitors := visitors s,
             nextVisitorId := nextVisitorId s, calls := calls s\<rparr> = s"
proof -
  have h: "handleGoalConversion env i evt = ret_io ()" for i
    using assms(2) by (rule conversion_noop)
  have p: "snd (processEvent env evt s) = snd (upsertVisitor env evt s)"
    using assms(1,3,4) by (simp add: processEvent_def h snd_bind_ret_unit)
  show ?thesis
    by (simp add: h p upsertVisitor_frame) (simp add: ret_io_def)
qed

theorem C3_conversion_without_attribution_witness:
  "(snd (processEvent env0
      (evt0\<lparr>evt_eventType := Some ''GOAL_CONVERSION'', evt_goalId := Some ''g1'',
            evt_attributedExperiments := Some []\<rparr>) world0))\<lparr>visitors := [],
        nextVisitorId := 0, calls := 0\<rparr> = world0"
proof -
  let ?e = "evt0\<lparr>evt_eventType := Some ''GOAL_CONVERSION'', evt_goalId := Some ''g1'',
                 evt_attributedExperiments := Some []\<rparr>"
  have 1: "evt_eventType ?e = Some ''GOAL_CONVERSION''" by (simp add: evt0_def)
  have 2: "\<not> truthy (evt_goalId ?e) \<or> evt_attributedExperiments ?e = None
           \<or> evt_attributedExperiments ?e = Some []" by (simp add: evt0_def)
  have 3: "truthy (evt_projectId ?e)" by (simp add: evt0_def)
  have 4: "truthy (evt_visitorId ?e)" by (simp add: evt0_def)
  have w: "visitors world0 = []" "nextVisitorId world0 = 0" "calls world0 = 0"
    by (simp_all add: world0_def)
  note t = C3_conversion_without_attribution [OF 1 2 3 4, of env0 0 world0]
  show ?thesis
    using t [THEN conjunct2, THEN conjunct2] by (simp only: w)
qed

subsection \<open>Finding and updating rows\<close>

lemma find_updateFirst_same:
  "find P xs = Some r \<Longrightarrow> P (f r) \<Longrightarrow> find P (updateFirst P f xs) = Some (f r)"
  by (induction xs) (auto split: if_splits)

lemma map_id_updateFirst:
  "(\<And>x. g (f x) = g x) \<Longrightarrow> map g (updateFirst P f xs) = map g xs"
  by (induction xs) auto

lemma find_Some_mem: "find P xs = Some r \<Longrightarrow> r \<in> set xs \<and> P r"
  by (induction xs) (auto split: if_splits)

lemma find_by_id_mem: "r \<in> set xs \<Longrightarrow> find (\<lambda>x. g x = g r) xs \<noteq> None"
  by (auto simp: find_None_iff)

lemma find_updateFirst_by_id:
  assumes "distinct (map g xs)" and "find P xs = Some r"
    and "\<And>x. P (f x) = P x" 
  shows "find P (updateFirst (\<lambda>x. g x = g r) f xs) = Some (f r)"
  using assms
proof (induction xs)
  case Nil
  then show ?case by simp
next
  case (Cons x xs)
  show ?case
  proof (cases "P x")
    case True
    with Cons.prems have "x = r" by simp
    with True Cons.prems(3) show ?thesis by simp
  next
    case False
    with Cons.prems have fr: "find P xs = Some r" by simp
    then have "r \<in> set xs" by (simp add: find_Some_mem)
    with Cons.prems(1) have "g x \<noteq> g r" by auto
    with False Cons.prems Cons.IH fr show ?thesis by simp
  qed
qed

lemma lookupVisitor_calls [simp]: "lookupVisitor p v (s\<lparr>calls := c\<rparr>) = lookupVisitor p v s"
  by (simp add: lookupVisitor_def)

lemma findAssignment_calls [simp]: "findAssignment i e (s\<lparr>calls := c\<rparr>) = findAssignment i e s"
  by (simp add: findAssignment_def)

lemma find_append_new:
  "find P xs = None \<Longrightarrow> P r \<Longrightarrow> find P (xs @ [r]) = Some r"
  by (induction xs) (auto split: if_splits)

lemma updateFirst_append_new:
  "\<forall>x\<in>set xs. \<not> Q x \<Longrightarrow> Q r \<Longrightarrow> updateFirst Q f (xs @ [r]) = xs @ [f r]"
  by (induction xs) auto

lemma upsertVisitor_create:
  assumes "evt_projectId evt = Some p" "evt_visitorId evt = Some v" "evt_timestamp evt = Some t"
    and "\<not> fails env VisitorUpsert (calls s)" and "lookupVisitor p v s = None"
  shows "upsertVisitor env evt s =
           (Ok (newVisitor env evt p v t (nextVisitorId s)),
            s\<lparr>visitors := visitors s @ [newVisitor env evt p v t (nextVisitorId s)],
              nextVisitorId := nextVisitorId s + 1, calls := calls s + 1\<rparr>)"
  using assms by (simp add: upsertVisitor_def io_defs db_defs)

lemma upsertVisitor_update:
  assumes "evt_projectId evt = Some p" "evt_visitorId evt = Some v" "evt_timestamp evt = Some t"
    and "\<not> fails env VisitorUpsert (calls s)" and "lookupVisitor p v s = Some r"
  shows "upsertVisitor env evt s =
           (Ok (r\<lparr>v_lastSeen := t, v_pageViews := v_pageViews r + 1\<rparr>),
            s\<lparr>visitors := updateFirst (\<lambda>r. v_projectId r = p \<and> v_visitorId r = v)
                  (\<lambda>r. r\<lparr>v_lastSeen := t, v_pageViews := v_pageViews r + 1\<rparr>) (visitors s),
              calls := calls s + 1\<rparr>)"
  using assms by (simp add: upsertVisitor_def io_defs db_defs)

lemma newVisitor_fields:
  "v_id (newVisitor env evt p v t i) = i"
  "v_projectId (newVisitor env evt p v t i) = p"
  "v_visitorId (newVisitor env evt p v t i) = v"
  "v_firstSeen (newVisitor env evt p v t i) = t"
  "v_lastSeen (newVisitor env evt p v t i) = t"
  "v_visitCount (newVisitor env evt p v t i) = 1"
  "v_pageViews (newVisitor env evt p v t i) = 1"
  by (simp_all add: newVisitor_def Let_def)

lemma updateFirst_mem: "find P xs = Some r \<Longrightarrow> f r \<in> set (updateFirst P f xs)"
  by (induction xs) (auto split: if_splits)

text \<open>The visitor returned by a successful upsert is in the table.\<close>
lemma upsertVisitor_returns_row:
  assumes "upsertVisitor env evt s = (Ok vis, s')"
  shows "vis \<in> set (visitors s')"
  using assms
  by (auto simp: upsertVisitor_def io_defs db_defs lookupVisitor_def intro: updateFirst_mem
      split: option.splits if_splits)

subsection \<open>Relations kept by every call\<close>

lemma io_rel_ret: "preorder_rel R \<Longrightarrow> io_rel R (ret_io x)"
  by (simp add: io_rel_def preorder_rel_def ret_io_def)

lemma io_rel_throw: "preorder_rel R \<Longrightarrow> io_rel R (throw_io e)"
  by (simp add: io_rel_def preorder_rel_def throw_io_def)

lemma io_rel_bind:
  assumes "preorder_rel R" and "io_rel R m" and "\<And>x. io_rel R (f x)"
  shows "io_rel R (bind_io m f)"
proof -
  have "R s (snd (bind_io m f s))" for s
  proof (cases "m s")
    case (Pair r s')
    with assms(2) have 1: "R s s'" by (metis io_rel_def snd_conv)
    show ?thesis
    proof (cases r)
      case (Ok x)
      with assms(3) have "R s' (snd (f x s'))" by (simp add: io_rel_def)
      with 1 assms(1) Pair Ok show ?thesis
        unfolding preorder_rel_def bind_io_def by (auto simp: )
    next
      case (Err e)
      with 1 Pair show ?thesis by (simp add: bind_io_def)
    qed
  qed
  then show ?thesis by (simp add: io_rel_def)
qed

lemma io_rel_then:
  "preorder_rel R \<Longrightarrow> io_rel R m \<Longrightarrow> io_rel R n \<Longrightarrow> io_rel R (then_io m n)"
  by (simp add: then_io_def io_rel_bind)

lemma io_rel_catch:
  assumes "preorder_rel R" and "io_rel R m" and "\<And>e. io_rel R (h e)"
  shows "io_rel R (catch_io m h)"
proof -
  have "R s (snd (catch_io m h s))" for s
  proof (cases "m s")
    case (Pair r s')
    with assms(2) have 1: "R s s'" by (metis io_rel_def snd_conv)
    show ?thesis
    proof (cases r)
      case (Ok x)
      with 1 Pair show ?thesis by (simp add: catch_io_def)
    next
      case (Err e)
      with assms(3) have "R s' (snd (h e s'))" by (simp add: io_rel_def)
      with 1 assms(1) Pair Err show ?thesis
        unfolding preorder_rel_def catch_io_def by auto
    qed
  qed
  then show ?thesis by (simp add: io_rel_def)
qed

lemma io_rel_reads: "(\<And>t. io_rel R (m t)) \<Longrightarrow> io_rel R (\<lambda>s. m s s)"
  by (simp add: io_rel_def)

lemma io_rel_storeCall:
  assumes "preorder_rel R" and "\<And>s. R s (s\<lparr>calls := calls s + 1\<rparr>)" and "io_rel R body"
  shows "io_rel R (storeCall env k body)"
proof -
  have "R s (snd (storeCall env k body s))" for s
  proof -
    have "R (s\<lparr>calls := calls s + 1\<rparr>) (snd (body (s\<lparr>calls := calls s + 1\<rparr>)))"
      using assms(3) by (simp add: io_rel_def)
    with assms(1,2) have "R s (snd (body (s\<lparr>calls := calls s + 1\<rparr>)))"
      unfolding preorder_rel_def by blast
    with assms(2) show ?thesis by (simp add: storeCall_def)
  qed
  then show ?thesis by (simp add: io_rel_def)
qed

text \<open>The Visitor table is written by the Visitor upsert and the session-start handler only.\<close>

lemma sameVisitors_preorder: "preorder_rel sameVisitors"
  by (simp add: preorder_rel_def sameVisitors_def)

lemma sameVisitors_ops:
  "io_rel sameVisitors (db_event_create env ev)"
  "io_rel sameVisitors (db_variantAssignment_findUnique env i e)"
  "io_rel sameVisitors (db_variantAssignment_create env a)"
  "io_rel sameVisitors (db_variant_update env x fv)"
  "io_rel sameVisitors (db_experiment_update env x fe)"
  "io_rel sameVisitors (db_experimentGoal_updateMany env e g fg)"
  "io_rel sameVisitors (db_goalConversion_create env gc)"
  "io_rel sameVisitors (db_experimentDailyStat_upsert env key c u)"
  "io_rel sameVisitors (\<lambda>s. db_liveLog_create env (lf s) s)"
  "io_rel sameVisitors (consoleLine msg)"
  by (simp_all add: io_rel_def sameVisitors_def db_defs io_defs split: option.splits)

lemmas io_rel_rules = io_rel_ret io_rel_throw io_rel_bind io_rel_then io_rel_catch

lemma sameVisitors_updateDailyStat: "io_rel sameVisitors (updateDailyStat env e f r)"
  unfolding updateDailyStat_def Let_def
  by (rule io_rel_reads) (intro io_rel_rules sameVisitors_preorder sameVisitors_ops)

lemma sameVisitors_view: "io_rel sameVisitors (handleExperimentView env i evt)"
proof (cases "evt_experimentId evt"; cases "evt_variantId evt")
  fix e v assume "evt_experimentId evt = Some e" "evt_variantId evt = Some v"
  then show ?thesis
    unfolding handleExperimentView_def
    apply (simp add: io_rel_ret sameVisitors_preorder)
    apply (intro impI io_rel_bind io_rel_then sameVisitors_preorder sameVisitors_ops)
    subgoal for x
      by (cases x) (simp_all add: io_rel_then io_rel_ret sameVisitors_preorder sameVisitors_ops
          sameVisitors_updateDailyStat)
    done
qed (simp_all add: handleExperimentView_def io_rel_ret sameVisitors_preorder)

lemma sameVisitors_body: "io_rel sameVisitors (attributionBody env i evt g a)"
  unfolding attributionBody_def
  by (intro io_rel_then sameVisitors_preorder sameVisitors_ops sameVisitors_updateDailyStat)

lemma sameVisitors_loop: "io_rel sameVisitors (attributionLoop env i evt g as)"
  by (induction as) (simp_all add: io_rel_then io_rel_ret sameVisitors_preorder sameVisitors_body)

lemma sameVisitors_conversion: "io_rel sameVisitors (handleGoalConversion env i evt)"
  by (cases "evt_goalId evt"; cases "evt_attributedExperiments evt")
     (simp_all add: handleGoalConversion_def io_rel_ret sameVisitors_preorder sameVisitors_loop)

lemma sameVisitors_custom: "io_rel sameVisitors (handleCustomEvent env i evt)"
  unfolding handleCustomEvent_def by (rule sameVisitors_ops)

lemma sameVisitors_generic: "io_rel sameVisitors (handleGenericEvent env i evt)"
  unfolding handleGenericEvent_def by (rule sameVisitors_ops)

subsection \<open>Session start\<close>

lemma upsertVisitor_events: "events (snd (upsertVisitor env evt s)) = events s"
proof -
  have "events ((snd (upsertVisitor env evt s))\<lparr>visitors := visitors s,
      nextVisitorId := nextVisitorId s, calls := calls s\<rparr>) = events s"
    by (simp only: upsertVisitor_frame)
  then show ?thesis by simp
qed

lemma sessionEventRow_fields:
  "ev_eventType (sessionEventRow i evt) = Some ''PAGE_VIEW''"
  "ev_eventData (sessionEventRow i evt) = SessionData (evt_sessionId evt) (evt_referrer evt) True"
  by (simp_all add: sessionEventRow_def)

lemma handleSessionStart_events:
  "events (snd (handleSessionStart env i evt s)) = events s
   \<or> events (snd (handleSessionStart env i evt s)) = events s @ [sessionEventRow i evt]"
  by (simp add: handleSessionStart_def io_defs db_defs split: option.splits)

lemma handleSessionStart_ok:
  assumes "\<not> fails env VisitorUpdate (calls s)" and "\<not> fails env EventCreate (calls s + 1)"
    and "find (\<lambda>r. v_id r = i) (visitors s) \<noteq> None"
  shows "handleSessionStart env i evt s =
           (Ok (), s\<lparr>visitors := updateFirst (\<lambda>r. v_id r = i)
                        (\<lambda>r. r\<lparr>v_visitCount := v_visitCount r + 1\<rparr>) (visitors s),
                      events := events s @ [sessionEventRow i evt], calls := calls s + 2\<rparr>)"
  using assms
  by (auto simp add: handleSessionStart_def io_defs db_defs eval_nat_numeral split: option.splits)

lemma handleSessionStart_visitors:
  assumes "\<not> fails env VisitorUpdate (calls s)"
    and "find (\<lambda>r. v_id r = i) (visitors s) \<noteq> None"
  shows "visitors (snd (handleSessionStart env i evt s)) =
           updateFirst (\<lambda>r. v_id r = i) (\<lambda>r. r\<lparr>v_visitCount := v_visitCount r + 1\<rparr>)
             (visitors s)"
  using assms
  by (auto simp add: handleSessionStart_def io_defs db_defs split: option.splits)

lemma processEvent_valid:
  assumes "truthy (evt_projectId evt)" "truthy (evt_visitorId evt)" "truthy (evt_eventType evt)"
    and "upsertVisitor env evt s = (Ok vis, s1)"
  shows "processEvent env evt s =
     (if evt_eventType evt = Some ''SESSION_START''
        then handleSessionStart env (v_id vis) evt s1
      else if evt_eventType evt = Some ''EXPERIMENT_VIEW''
        then handleExperimentView env (v_id vis) evt s1
      else if evt_eventType evt = Some ''GOAL_CONVERSION''
        then handleGoalConversion env (v_id vis) evt s1
      else if evt_eventType evt = Some ''CUSTOM_EVENT''
        then handleCustomEvent env (v_id vis) evt s1
      else handleGenericEvent env (v_id vis) evt s1)"
  using assms by (simp add: processEvent_def bind_io_def)

lemma processEvent_upsert_fails:
  assumes "upsertVisitor env evt s = (Err e, s1)"
  shows "snd (processEvent env evt s) = s1 \<or> snd (processEvent env evt s) = s\<lparr>console := console s @ [''Missing required fields:'']\<rparr>"
  using assms by (simp add: processEvent_def bind_io_def consoleLine_def)

text \<open>
  C9: processing a SESSION_START event appends at most one Event row, and the row it
  appends carries eventType "PAGE_VIEW" and a payload whose isSessionStart marker is
  true (with the session id and the referrer), never eventType "SESSION_START". When
  the event has its required fields and a valid timestamp and the three database calls
  do not fail, the row is appended.
\<close>

theorem C9_session_start_row:
  assumes "evt_eventType evt = Some ''SESSION_START''"
  shows "(events (snd (processEvent env evt s)) = events s
          \<or> (\<exists>row. events (snd (processEvent env evt s)) = events s @ [row]
               \<and> ev_eventType row = Some ''PAGE_VIEW''
               \<and> ev_eventData row = SessionData (evt_sessionId evt) (evt_referrer evt) True))
       \<and> (truthy (evt_projectId evt) \<and> truthy (evt_visitorId evt) \<and> evt_timestamp evt \<noteq> None
            \<and> (\<forall>n. \<not> fails env VisitorUpsert n \<and> \<not> fails env VisitorUpdate n
                    \<and> \<not> fails env EventCreate n)
          \<longrightarrow> fst (processEvent env evt s) = Ok ()
              \<and> (\<exists>row. events (snd (processEvent env evt s)) = events s @ [row]
                   \<and> ev_eventType row = Some ''PAGE_VIEW''
                   \<and> ev_eventData row = SessionData (evt_sessionId evt) (evt_referrer evt) True))"
proof (intro conjI impI)
  show "events (snd (processEvent env evt s)) = events s
          \<or> (\<exists>row. events (snd (processEvent env evt s)) = events s @ [row]
               \<and> ev_eventType row = Some ''PAGE_VIEW''
               \<and> ev_eventData row = SessionData (evt_sessionId evt) (evt_referrer evt) True)"
  proof (cases "truthy (evt_projectId evt) \<and> truthy (evt_visitorId evt)")
    case False
    then show ?thesis by (auto simp: processEvent_def consoleLine_def)
  next
    case True
    obtain r s1 where u: "upsertVisitor env evt s = (r, s1)" by (cases "upsertVisitor env evt s")
    have e1: "events s1 = events s" using upsertVisitor_events [of env evt s] u by simp
    show ?thesis
    proof (cases r)
      case (Ok vis)
      with True assms u have "processEvent env evt s = handleSessionStart env (v_id vis) evt s1"
        by (simp add: processEvent_valid)
      with handleSessionStart_events [of env "v_id vis" evt s1] e1 show ?thesis
        by (auto simp: sessionEventRow_fields)
    next
      case (Err e)
      with u e1 processEvent_upsert_fails [of env evt s e s1] show ?thesis by auto
    qed
  qed
next
  assume a: "truthy (evt_projectId evt) \<and> truthy (evt_visitorId evt) \<and> evt_timestamp evt \<noteq> None
            \<and> (\<forall>n. \<not> fails env VisitorUpsert n \<and> \<not> fails env VisitorUpdate n
                    \<and> \<not> fails env EventCreate n)"
  then obtain p v t where f: "evt_projectId evt = Some p" "evt_visitorId evt = Some v"
      "evt_timestamp evt = Some t"
    by (cases "evt_projectId evt"; cases "evt_visitorId evt"; cases "evt_timestamp evt") auto
  have "\<exists>vis s1. upsertVisitor env evt s = (Ok vis, s1)"
    using a f by (cases "lookupVisitor p v s") (simp_all add: upsertVisitor_create upsertVisitor_update)
  then obtain vis s1 where u: "upsertVisitor env evt s = (Ok vis, s1)" by blast
  have e1: "events s1 = events s" using upsertVisitor_events [of env evt s] u by simp
  have "vis \<in> set (visitors s1)" using u by (rule upsertVisitor_returns_row)
  then have fnd: "find (\<lambda>r. v_id r = v_id vis) (visitors s1) \<noteq> None" by (rule find_by_id_mem)
  have pe: "processEvent env evt s = handleSessionStart env (v_id vis) evt s1"
    using a assms u by (simp add: processEvent_valid)
  from a have "\<not> fails env VisitorUpdate (calls s1)" "\<not> fails env EventCreate (calls s1 + 1)"
    by simp_all
  from handleSessionStart_ok [OF this fnd, of evt] have
    "handleSessionStart env (v_id vis) evt s1 =
           (Ok (), s1\<lparr>visitors := updateFirst (\<lambda>r. v_id r = v_id vis)
                        (\<lambda>r. r\<lparr>v_visitCount := v_visitCount r + 1\<rparr>) (visitors s1),
                      events := events s1 @ [sessionEventRow (v_id vis) evt],
                      calls := calls s1 + 2\<rparr>)" .
  with pe e1 show "fst (processEvent env evt s) = Ok ()"
    and "\<exists>row. events (snd (processEvent env evt s)) = events s @ [row]
                   \<and> ev_eventType row = Some ''PAGE_VIEW''
                   \<and> ev_eventData row = SessionData (evt_sessionId evt) (evt_referrer evt) True"
    by (auto simp: sessionEventRow_fields)
qed

theorem C9_session_start_row_witness:
  "fst (processEvent env0 (evt0\<lparr>evt_eventType := Some ''SESSION_START''\<rparr>) world0) = Ok ()
   \<and> map ev_eventType
        (events (snd (processEvent env0 (evt0\<lparr>evt_eventType := Some ''SESSION_START''\<rparr>) world0)))
      = [Some ''PAGE_VIEW'']"
proof -
  let ?e = "evt0\<lparr>evt_eventType := Some ''SESSION_START''\<rparr>"
  have 1: "evt_eventType ?e = Some ''SESSION_START''" by simp
  have 2: "truthy (evt_projectId ?e) \<and> truthy (evt_visitorId ?e) \<and> evt_timestamp ?e \<noteq> None
            \<and> (\<forall>n. \<not> fails env0 VisitorUpsert n \<and> \<not> fails env0 VisitorUpdate n
                    \<and> \<not> fails env0 EventCreate n)"
    by (simp add: ex_defs)
  have 3: "events world0 = []" by (simp add: world0_def)
  from C9_session_start_row [OF 1, of env0 world0, THEN conjunct2, rule_format, OF 2]
  show ?thesis by (auto simp: 3)
qed

subsection \<open>Visitor counters\<close>

lemma upsertVisitor_visitors_ids:
  "upsertVisitor env evt s = (Ok vis, s1) \<Longrightarrow> lookupVisitor p v s = Some r
   \<Longrightarrow> evt_projectId evt = Some p \<Longrightarrow> evt_visitorId evt = Some v
   \<Longrightarrow> map v_id (visitors s1) = map v_id (visitors s)"
  by (auto simp: upsertVisitor_def io_defs db_defs map_id_updateFirst
      split: option.splits if_splits)

text \<open>
  C7, amended: for an event with its required fields and a valid timestamp, when the
  Visitor calls do not fail (and identifiers of Visitor rows are unique and below the
  next free one): if the pair (projectId, visitorId) has no row, the upsert creates one
  with visitCount 1, pageViews 1 and firstSeen = lastSeen = the event timestamp, and
  after the event the row is that one, except that visitCount is 2 when the event is a
  SESSION_START; if the pair has a row, after the event lastSeen is the event timestamp,
  pageViews is one more, and visitCount is one more for a SESSION_START and unchanged
  otherwise.
\<close>

theorem C7_visitor_counters:
  assumes p: "evt_projectId evt = Some p" "p \<noteq> []"
    and v: "evt_visitorId evt = Some v" "v \<noteq> []"
    and ty: "truthy (evt_eventType evt)"
    and t: "evt_timestamp evt = Some t"
    and nf: "\<And>n. \<not> fails env VisitorUpsert n" "\<And>n. \<not> fails env VisitorUpdate n"
    and wf: "distinct (map v_id (visitors s))" "\<forall>r\<in>set (visitors s). v_id r < nextVisitorId s"
  shows "(case lookupVisitor p v s of
            None \<Rightarrow>
              (\<exists>r0. fst (upsertVisitor env evt s) = Ok r0 \<and> v_visitCount r0 = 1
                    \<and> v_pageViews r0 = 1 \<and> v_firstSeen r0 = t \<and> v_lastSeen r0 = t
                    \<and> lookupVisitor p v (snd (upsertVisitor env evt s)) = Some r0
                    \<and> lookupVisitor p v (snd (processEvent env evt s)) =
                        Some (r0\<lparr>v_visitCount :=
                                (if evt_eventType evt = Some ''SESSION_START'' then 2 else 1)\<rparr>))
          | Some r \<Rightarrow>
              lookupVisitor p v (snd (processEvent env evt s)) =
                Some (r\<lparr>v_lastSeen := t, v_pageViews := v_pageViews r + 1,
                        v_visitCount := v_visitCount r +
                          (if evt_eventType evt = Some ''SESSION_START'' then 1 else 0)\<rparr>))"
proof (cases "lookupVisitor p v s")
  case None
  let ?n = "newVisitor env evt p v t (nextVisitorId s)"
  let ?s1 = "s\<lparr>visitors := visitors s @ [?n], nextVisitorId := nextVisitorId s + 1,
               calls := calls s + 1\<rparr>"
  let ?key = "\<lambda>r. v_projectId r = p \<and> v_visitorId r = v"
  have u: "upsertVisitor env evt s = (Ok ?n, ?s1)"
    using p v t nf None by (simp add: upsertVisitor_create)
  have fn: "find ?key (visitors s) = None" using None by (simp add: lookupVisitor_def)
  have l1: "lookupVisitor p v ?s1 = Some ?n"
    using fn by (simp add: lookupVisitor_def find_append_new newVisitor_fields)
  have pe: "processEvent env evt s =
     (if evt_eventType evt = Some ''SESSION_START''
        then handleSessionStart env (nextVisitorId s) evt ?s1
      else if evt_eventType evt = Some ''EXPERIMENT_VIEW''
        then handleExperimentView env (nextVisitorId s) evt ?s1
      else if evt_eventType evt = Some ''GOAL_CONVERSION''
        then handleGoalConversion env (nextVisitorId s) evt ?s1
      else if evt_eventType evt = Some ''CUSTOM_EVENT''
        then handleCustomEvent env (nextVisitorId s) evt ?s1
      else handleGenericEvent env (nextVisitorId s) evt ?s1)"
    using processEvent_valid [OF _ _ ty u] p v by (simp add: newVisitor_fields)
  have fin: "lookupVisitor p v (snd (processEvent env evt s)) =
               Some (?n\<lparr>v_visitCount :=
                         (if evt_eventType evt = Some ''SESSION_START'' then 2 else 1)\<rparr>)"
  proof (cases "evt_eventType evt = Some ''SESSION_START''")
    case True
    have fresh: "\<forall>x\<in>set (visitors s). \<not> v_id x = nextVisitorId s" using wf(2) by auto
    have "find (\<lambda>r. v_id r = nextVisitorId s) (visitors ?s1) \<noteq> None"
      by (auto simp: find_None_iff newVisitor_fields)
    from handleSessionStart_visitors [OF nf(2) this, of evt]
    have "visitors (snd (handleSessionStart env (nextVisitorId s) evt ?s1)) =
            visitors s @ [?n\<lparr>v_visitCount := v_visitCount ?n + 1\<rparr>]"
      using fresh by (simp add: updateFirst_append_new newVisitor_fields)
    with True pe fn show ?thesis
      by (simp add: lookupVisitor_def find_append_new newVisitor_fields)
  next
    case False
    have "visitors (snd (processEvent env evt s)) = visitors ?s1"
      using False pe sameVisitors_view [of env "nextVisitorId s" evt]
        sameVisitors_conversion [of env "nextVisitorId s" evt]
        sameVisitors_custom [of env "nextVisitorId s" evt]
        sameVisitors_generic [of env "nextVisitorId s" evt]
      by (simp add: io_rel_def sameVisitors_def)
    with l1 False show ?thesis
      by (simp add: lookupVisitor_def) (simp add: newVisitor_def Let_def)
  qed
  show ?thesis
    using None u l1 fin by (simp add: newVisitor_fields)
next
  case (Some r)
  let ?upd = "\<lambda>r. r\<lparr>v_lastSeen := t, v_pageViews := v_pageViews r + 1\<rparr>"
  let ?key = "\<lambda>r. v_projectId r = p \<and> v_visitorId r = v"
  let ?s1 = "s\<lparr>visitors := updateFirst ?key ?upd (visitors s), calls := calls s + 1\<rparr>"
  have u: "upsertVisitor env evt s = (Ok (?upd r), ?s1)"
    using p v t nf Some by (simp add: upsertVisitor_update)
  have fr: "find ?key (visitors s) = Some r" using Some by (simp add: lookupVisitor_def)
  have kr: "?key r" using find_Some_mem [OF fr] by simp
  have f1: "find ?key (visitors ?s1) = Some (?upd r)"
    using find_updateFirst_same [OF fr, of ?upd] kr by simp
  have d1: "distinct (map v_id (visitors ?s1))"
    using wf(1) by (simp add: map_id_updateFirst)
  have pe: "processEvent env evt s =
     (if evt_eventType evt = Some ''SESSION_START''
        then handleSessionStart env (v_id r) evt ?s1
      else if evt_eventType evt = Some ''EXPERIMENT_VIEW''
        then handleExperimentView env (v_id r) evt ?s1
      else if evt_eventType evt = Some ''GOAL_CONVERSION''
        then handleGoalConversion env (v_id r) evt ?s1
      else if evt_eventType evt = Some ''CUSTOM_EVENT''
        then handleCustomEvent env (v_id r) evt ?s1
      else handleGenericEvent env (v_id r) evt ?s1)"
    using processEvent_valid [OF _ _ ty u] p v by simp
  have fin: "lookupVisitor p v (snd (processEvent env evt s)) =
                Some (r\<lparr>v_lastSeen := t, v_pageViews := v_pageViews r + 1,
                        v_visitCount := v_visitCount r +
                          (if evt_eventType evt = Some ''SESSION_START'' then 1 else 0)\<rparr>)"
  proof (cases "evt_eventType evt = Some ''SESSION_START''")
    case True
    have "?upd r \<in> set (visitors ?s1)" using find_Some_mem [OF f1] by simp
    then have "find (\<lambda>x. v_id x = v_id (?upd r)) (visitors ?s1) \<noteq> None"
      by (rule find_by_id_mem)
    then have ex: "find (\<lambda>x. v_id x = v_id r) (visitors ?s1) \<noteq> None" by simp
    have vs: "visitors (snd (handleSessionStart env (v_id r) evt ?s1)) =
            updateFirst (\<lambda>x. v_id x = v_id r) (\<lambda>r. r\<lparr>v_visitCount := v_visitCount r + 1\<rparr>)
              (visitors ?s1)"
      by (rule handleSessionStart_visitors [OF nf(2) ex])
    have "find ?key (updateFirst (\<lambda>x. v_id x = v_id (?upd r))
             (\<lambda>r. r\<lparr>v_visitCount := v_visitCount r + 1\<rparr>) (visitors ?s1)) =
          Some ((?upd r)\<lparr>v_visitCount := v_visitCount (?upd r) + 1\<rparr>)"
      by (rule find_updateFirst_by_id [OF d1 f1]) simp
    with vs True pe show ?thesis by (simp add: lookupVisitor_def)
  next
    case False
    have "visitors (snd (processEvent env evt s)) = visitors ?s1"
      using False pe sameVisitors_view [of env "v_id r" evt]
        sameVisitors_conversion [of env "v_id r" evt]
        sameVisitors_custom [of env "v_id r" evt]
        sameVisitors_generic [of env "v_id r" evt]
      by (simp add: io_rel_def sameVisitors_def)
    with f1 False show ?thesis by (simp add: lookupVisitor_def)
  qed
  show ?thesis using Some fin by simp
qed

text \<open>
  C7, as stated, fails when the first event of a visitor is itself a SESSION_START: the
  upsert creates the row with visitCount 1 and the session-start handler, in the same
  event, increments it, so the row holds visitCount 2 once the event is processed.
\<close>

theorem C7_counterexample:
  "lookupVisitor ''p1'' ''v1'' world0 = None
   \<and> map v_visitCount
        (visitors (snd (processEvent env0 (evt0\<lparr>evt_eventType := Some ''SESSION_START''\<rparr>) world0)))
      = [2]"
  by (simp add: processEvent_def upsertVisitor_def newVisitor_def handleSessionStart_def
        sessionEventRow_def lookupVisitor_def ex_defs Let_def io_defs db_defs)

theorem C7_visitor_counters_witness:
  "lookupVisitor ''p1'' ''v1''
     (snd (processEvent env0 (evt0\<lparr>evt_eventType := Some ''SESSION_START''\<rparr>) world0))
     = Some ((newVisitor env0 evt0 ''p1'' ''v1'' 1704110400000 0)\<lparr>v_visitCount := 2\<rparr>)
   \<and> lookupVisitor ''p1'' ''v1''
     (snd (processEvent env0
        (evt0\<lparr>evt_eventType := Some ''PAGE_VIEW'', evt_timestamp := Some 1704110460000\<rparr>) world1))
     = Some ((newVisitor env0 evt0 ''p1'' ''v1'' 1704110400000 0)
              \<lparr>v_lastSeen := 1704110460000, v_pageViews := 2\<rparr>)"
proof -
  let ?a = "evt0\<lparr>evt_eventType := Some ''SESSION_START''\<rparr>"
  let ?b = "evt0\<lparr>evt_eventType := Some ''PAGE_VIEW'', evt_timestamp := Some 1704110460000\<rparr>"
  have nf: "\<And>n. \<not> fails env0 VisitorUpsert n" "\<And>n. \<not> fails env0 VisitorUpdate n"
    by (simp_all add: env0_def)
  have a: "evt_projectId ?a = Some ''p1''" "''p1'' \<noteq> []" "evt_visitorId ?a = Some ''v1''"
    "''v1'' \<noteq> []" "truthy (evt_eventType ?a)" "evt_timestamp ?a = Some 1704110400000"
    by (simp_all add: evt0_def)
  have b: "evt_projectId ?b = Some ''p1''" "''p1'' \<noteq> []" "evt_visitorId ?b = Some ''v1''"
    "''v1'' \<noteq> []" "truthy (evt_eventType ?b)" "evt_timestamp ?b = Some 1704110460000"
    by (simp_all add: evt0_def)
  have w0: "distinct (map v_id (visitors world0))"
    "\<forall>r\<in>set (visitors world0). v_id r < nextVisitorId world0"
    by (simp_all add: world0_def)
  have w1: "distinct (map v_id (visitors world1))"
    "\<forall>r\<in>set (visitors world1). v_id r < nextVisitorId world1"
    by (simp_all add: world1_def world0_def newVisitor_def Let_def)
  have l0: "lookupVisitor ''p1'' ''v1'' world0 = None"
    by (simp add: lookupVisitor_def world0_def)
  have l1: "lookupVisitor ''p1'' ''v1'' world1
              = Some (newVisitor env0 evt0 ''p1'' ''v1'' 1704110400000 0)"
    by (simp add: lookupVisitor_def world1_def world0_def newVisitor_def Let_def)
  have u0: "fst (upsertVisitor env0 ?a world0)
              = Ok (newVisitor env0 evt0 ''p1'' ''v1'' 1704110400000 0)"
    by (simp add: upsertVisitor_def newVisitor_def lookupVisitor_def ex_defs Let_def io_defs
          db_defs)
  have 1: "lookupVisitor ''p1'' ''v1'' (snd (processEvent env0 ?a world0))
     = Some ((newVisitor env0 evt0 ''p1'' ''v1'' 1704110400000 0)\<lparr>v_visitCount := 2\<rparr>)"
    using C7_visitor_counters [OF a nf w0] by (auto simp: l0 u0)
  have 2: "lookupVisitor ''p1'' ''v1'' (snd (processEvent env0 ?b world1))
     = Some ((newVisitor env0 evt0 ''p1'' ''v1'' 1704110400000 0)
              \<lparr>v_lastSeen := 1704110460000, v_pageViews := 2\<rparr>)"
    using C7_visitor_counters [OF b nf w1] by (simp add: l1) (simp add: newVisitor_def Let_def)
  show ?thesis using 1 2 by (rule conjI)
qed

subsection \<open>Relations kept by the processing of an event\<close>

lemma keep_ops:
  assumes "calls_keep env R"
  shows "preorder_rel R"
    and "io_rel R (db_visitor_upsert env p v c u)"
    and "io_rel R (storeCall env VisitorUpsert (throw_io ValidationError :: Visitor io))"
    and "io_rel R (db_visitor_update env n fv)"
    and "io_rel R (db_event_create env ev)"
    and "io_rel R (db_variantAssignment_findUnique env n e)"
    and "io_rel R (db_variantAssignment_create env a)"
    and "io_rel R (db_variant_update env x fr)"
    and "io_rel R (db_experiment_update env x fe)"
    and "io_rel R (db_experimentGoal_updateMany env e g fg)"
    and "io_rel R (db_goalConversion_create env gc)"
    and "io_rel R (updateDailyStat env e fld revenue)"
    and "io_rel R (\<lambda>s. db_liveLog_create env (lf s) s)"
    and "io_rel R (consoleLine ''Missing required fields:'')"
  using assms by (simp_all add: calls_keep_def)

lemma keep_upsertVisitor: "calls_keep env R \<Longrightarrow> io_rel R (upsertVisitor env evt)"
  by (simp add: upsertVisitor_def keep_ops split: option.splits)

lemma keep_session: "calls_keep env R \<Longrightarrow> io_rel R (handleSessionStart env i evt)"
  unfolding handleSessionStart_def by (intro io_rel_then keep_ops)

lemma keep_view:
  assumes "calls_keep env R"
  shows "io_rel R (handleExperimentView env i evt)"
proof (cases "evt_experimentId evt"; cases "evt_variantId evt")
  fix e v assume "evt_experimentId evt = Some e" "evt_variantId evt = Some v"
  then show ?thesis
    unfolding handleExperimentView_def
    apply (simp add: io_rel_ret keep_ops [OF assms])
    apply (intro impI io_rel_bind io_rel_then keep_ops [OF assms])
    subgoal for x
      by (cases x) (simp_all add: io_rel_then io_rel_ret keep_ops [OF assms])
    done
qed (simp_all add: handleExperimentView_def io_rel_ret keep_ops [OF assms])

lemma keep_body: "calls_keep env R \<Longrightarrow> io_rel R (attributionBody env i evt g a)"
  unfolding attributionBody_def by (intro io_rel_then keep_ops)

lemma keep_loop: "calls_keep env R \<Longrightarrow> io_rel R (attributionLoop env i evt g as)"
  by (induction as) (simp_all add: io_rel_then io_rel_ret keep_body keep_ops)

lemma keep_conversion: "calls_keep env R \<Longrightarrow> io_rel R (handleGoalConversion env i evt)"
  by (cases "evt_goalId evt"; cases "evt_attributedExperiments evt")
     (simp_all add: handleGoalConversion_def io_rel_ret keep_loop keep_ops)

lemma keep_custom: "calls_keep env R \<Longrightarrow> io_rel R (handleCustomEvent env i evt)"
  by (simp add: handleCustomEvent_def keep_ops)

lemma keep_generic: "calls_keep env R \<Longrightarrow> io_rel R (handleGenericEvent env i evt)"
  by (simp add: handleGenericEvent_def keep_ops)

lemma keep_processEvent:
  assumes "calls_keep env R"
  shows "io_rel R (processEvent env evt)"
proof -
  have "io_rel R (bind_io (upsertVisitor env evt)
          (\<lambda>visitor.
             if evt_eventType evt = Some ''SESSION_START''
               then handleSessionStart env (v_id visitor) evt
             else if evt_eventType evt = Some ''EXPERIMENT_VIEW''
               then handleExperimentView env (v_id visitor) evt
             else if evt_eventType evt = Some ''GOAL_CONVERSION''
               then handleGoalConversion env (v_id visitor) evt
             else if evt_eventType evt = Some ''CUSTOM_EVENT''
               then handleCustomEvent env (v_id visitor) evt
             else handleGenericEvent env (v_id visitor) evt))"
    by (rule io_rel_bind [OF keep_ops(1) [OF assms] keep_upsertVisitor [OF assms]])
       (simp add: assms keep_session keep_view keep_conversion keep_custom keep_generic)
  then show ?thesis by (simp add: processEvent_def keep_ops [OF assms])
qed

lemma keep_processDecoded: "calls_keep env R \<Longrightarrow> io_rel R (processDecoded env d)"
  by (cases d) (simp_all add: processDecoded_def keep_processEvent io_rel_throw keep_ops)

lemma find_append_keeps: "find P xs = Some y \<Longrightarrow> find P (xs @ ys) = Some y"
  by (induction xs) (auto split: if_splits)

lemma keepsAssignment_kept: "calls_keep env (keepsAssignment i e)"
  unfolding calls_keep_def
  apply (intro conjI allI)
               apply (simp_all add: preorder_rel_def io_rel_def keepsAssignment_def)
              apply (auto simp add: db_defs io_defs updateDailyStat_def Let_def findAssignment_def find_append_keeps split: option.splits)
  done

lemma assignment_stays:
  "findAssignment i e s \<noteq> None \<Longrightarrow> findAssignment i e (snd (processEvent env evt s)) \<noteq> None"
  using keep_processEvent [OF keepsAssignment_kept, where evt = evt and env = env and i1 = i and e1 = e]
  by (simp add: io_rel_def keepsAssignment_def)

subsection \<open>Experiment views\<close>

lemma view_first:
  assumes nf: "\<And>k n. \<not> fails env k n"
    and e: "evt_experimentId evt = Some e" "e \<noteq> []"
    and v: "evt_variantId evt = Some v" "v \<noteq> []"
    and fresh: "findAssignment vid e s = None"
    and var: "variants s v = Some vr"
    and ex: "experiments s e = Some er"
  shows "handleExperimentView env vid evt s =
    (Ok (),
     s\<lparr>assignments := assignments s @ [\<lparr>as_visitorId = vid, as_experimentId = e, as_variantId = v\<rparr>],
       variants := (variants s)(v \<mapsto> vr\<lparr>var_visitors := var_visitors vr + 1\<rparr>),
       experiments := (experiments s)(e \<mapsto> er\<lparr>exp_totalVisitors := exp_totalVisitors er + 1\<rparr>),
       dailyStats := (dailyStats s)((e, startOfLocalDay env (clock env (calls s + 4))) \<mapsto>
          (case dailyStats s (e, startOfLocalDay env (clock env (calls s + 4))) of
             None \<Rightarrow> \<lparr>ds_impressions = 1, ds_conversions = 0, ds_revenue = 0\<rparr>
           | Some r \<Rightarrow> r\<lparr>ds_impressions := ds_impressions r + 1\<rparr>)),
       events := events s @ [viewEventRow vid evt e v],
       liveLogs := liveLogs s @ [viewLiveLog evt e v (clock env (calls s + 6))],
       calls := calls s + 7\<rparr>)"
  using assms
  by (simp add: handleExperimentView_def updateDailyStat_def Let_def io_defs db_defs findAssignment_def eval_nat_numeral
        split: option.splits)

lemma view_repeat:
  assumes nf: "\<And>k n. \<not> fails env k n"
    and e: "evt_experimentId evt = Some e" "e \<noteq> []"
    and v: "evt_variantId evt = Some v" "v \<noteq> []"
    and old: "findAssignment vid e s = Some a"
  shows "handleExperimentView env vid evt s =
    (Ok (),
     s\<lparr>events := events s @ [viewEventRow vid evt e v],
       liveLogs := liveLogs s @ [viewLiveLog evt e v (clock env (calls s + 2))],
       calls := calls s + 3\<rparr>)"
  using assms
  by (simp add: handleExperimentView_def updateDailyStat_def Let_def io_defs db_defs findAssignment_def eval_nat_numeral
        split: option.splits)

lemma upsertVisitor_calls: "calls (snd (upsertVisitor env evt s)) = calls s + 1"
  by (simp add: upsertVisitor_def io_defs db_defs split: option.splits)

lemma upsertVisitor_tables:
  assumes "upsertVisitor env evt s = (r, s0)"
  shows "assignments s0 = assignments s" "variants s0 = variants s"
    "experiments s0 = experiments s" "experimentGoals s0 = experimentGoals s"
    "goalConversions s0 = goalConversions s" "dailyStats s0 = dailyStats s"
    "events s0 = events s" "liveLogs s0 = liveLogs s" "console s0 = console s"
    "calls s0 = calls s + 1"
proof -
  have f: "s0\<lparr>visitors := visitors s, nextVisitorId := nextVisitorId s, calls := calls s\<rparr> = s"
    using upsertVisitor_frame [where env = env and evt = evt and s = s] assms by simp
  show "assignments s0 = assignments s" using arg_cong [OF f, of assignments] by simp
  show "variants s0 = variants s" using arg_cong [OF f, of variants] by simp
  show "experiments s0 = experiments s" using arg_cong [OF f, of experiments] by simp
  show "experimentGoals s0 = experimentGoals s" using arg_cong [OF f, of experimentGoals] by simp
  show "goalConversions s0 = goalConversions s" using arg_cong [OF f, of goalConversions] by simp
  show "dailyStats s0 = dailyStats s" using arg_cong [OF f, of dailyStats] by simp
  show "events s0 = events s" using arg_cong [OF f, of events] by simp
  show "liveLogs s0 = liveLogs s" using arg_cong [OF f, of liveLogs] by simp
  show "console s0 = console s" using arg_cong [OF f, of console] by simp
  show "calls s0 = calls s + 1" using upsertVisitor_calls [of env evt s] assms by simp
qed

text \<open>
  C2: let an EXPERIMENT_VIEW event carry experimentId \<open>e\<close> and variantId \<open>v\<close>, let
  \<open>vis\<close> be the Visitor row the upsert returns for it, and let no database call fail.
  If the pair (\<open>vis\<close>, \<open>e\<close>) has no VariantAssignment (and the Variant and Experiment
  rows exist), processing the event appends exactly one VariantAssignment row, adds 1
  to the variant's visitors, to the experiment's totalVisitors and to the impressions
  of the ExperimentDailyStat row of the day (created with impressions 1 when absent),
  and appends one Event row and one LiveLog row; afterwards the pair has an
  assignment. If the pair has an assignment, processing the event leaves the
  assignments, both counters and the daily statistics as they were and appends one
  Event row and one LiveLog row. An assignment, once there, survives every event, so
  every later view of the pair is of the second kind.
\<close>

theorem C2_first_and_repeat_view:
  fixes env :: env and evt :: IncomingEvent and s :: world
  defines "s' \<equiv> snd (processEvent env evt s)"
  assumes ty: "evt_eventType evt = Some ''EXPERIMENT_VIEW''"
    and pv: "truthy (evt_projectId evt)" "truthy (evt_visitorId evt)"
    and e: "evt_experimentId evt = Some e" "e \<noteq> []"
    and v: "evt_variantId evt = Some v" "v \<noteq> []"
    and nf: "\<And>k n. \<not> fails env k n"
    and up: "fst (upsertVisitor env evt s) = Ok vis"
  shows "(findAssignment (v_id vis) e s = None \<and> variants s v = Some vr
            \<and> experiments s e = Some er \<longrightarrow>
          fst (processEvent env evt s) = Ok ()
          \<and> assignments s' = assignments s @
                [\<lparr>as_visitorId = v_id vis, as_experimentId = e, as_variantId = v\<rparr>]
          \<and> variants s' = (variants s)(v \<mapsto> vr\<lparr>var_visitors := var_visitors vr + 1\<rparr>)
          \<and> experiments s' =
                (experiments s)(e \<mapsto> er\<lparr>exp_totalVisitors := exp_totalVisitors er + 1\<rparr>)
          \<and> dailyStats s' =
                (dailyStats s)((e, startOfLocalDay env (clock env (calls s + 5))) \<mapsto>
                   (case dailyStats s (e, startOfLocalDay env (clock env (calls s + 5))) of
                      None \<Rightarrow> \<lparr>ds_impressions = 1, ds_conversions = 0, ds_revenue = 0\<rparr>
                    | Some r \<Rightarrow> r\<lparr>ds_impressions := ds_impressions r + 1\<rparr>))
          \<and> events s' = events s @ [viewEventRow (v_id vis) evt e v]
          \<and> liveLogs s' = liveLogs s @ [viewLiveLog evt e v (clock env (calls s + 7))]
          \<and> findAssignment (v_id vis) e s' \<noteq> None)
       \<and> (findAssignment (v_id vis) e s \<noteq> None \<longrightarrow>
          fst (processEvent env evt s) = Ok ()
          \<and> assignments s' = assignments s
          \<and> variants s' = variants s
          \<and> experiments s' = experiments s
          \<and> dailyStats s' = dailyStats s
          \<and> events s' = events s @ [viewEventRow (v_id vis) evt e v]
          \<and> liveLogs s' = liveLogs s @ [viewLiveLog evt e v (clock env (calls s + 3))])
       \<and> (\<forall>env' evt' t. findAssignment (v_id vis) e t \<noteq> None \<longrightarrow>
             findAssignment (v_id vis) e (snd (processEvent env' evt' t)) \<noteq> None)"
proof -
  obtain s0 where u: "upsertVisitor env evt s = (Ok vis, s0)"
    using up by (cases "upsertVisitor env evt s") simp
  note tb = upsertVisitor_tables [OF u]
  have pe: "processEvent env evt s = handleExperimentView env (v_id vis) evt s0"
    using processEvent_valid [OF pv _ u] ty by simp
  have fa: "findAssignment (v_id vis) e s0 = findAssignment (v_id vis) e s"
    by (simp add: findAssignment_def tb)
  have first: "fst (processEvent env evt s) = Ok ()
          \<and> assignments s' = assignments s @
                [\<lparr>as_visitorId = v_id vis, as_experimentId = e, as_variantId = v\<rparr>]
          \<and> variants s' = (variants s)(v \<mapsto> vr\<lparr>var_visitors := var_visitors vr + 1\<rparr>)
          \<and> experiments s' =
                (experiments s)(e \<mapsto> er\<lparr>exp_totalVisitors := exp_totalVisitors er + 1\<rparr>)
          \<and> dailyStats s' =
                (dailyStats s)((e, startOfLocalDay env (clock env (calls s + 5))) \<mapsto>
                   (case dailyStats s (e, startOfLocalDay env (clock env (calls s + 5))) of
                      None \<Rightarrow> \<lparr>ds_impressions = 1, ds_conversions = 0, ds_revenue = 0\<rparr>
                    | Some r \<Rightarrow> r\<lparr>ds_impressions := ds_impressions r + 1\<rparr>))
          \<and> events s' = events s @ [viewEventRow (v_id vis) evt e v]
          \<and> liveLogs s' = liveLogs s @ [viewLiveLog evt e v (clock env (calls s + 7))]
          \<and> findAssignment (v_id vis) e s' \<noteq> None"
    if a: "findAssignment (v_id vis) e s = None" "variants s v = Some vr"
      "experiments s e = Some er"
  proof -
    have "findAssignment (v_id vis) e s0 = None" "variants s0 v = Some vr"
      "experiments s0 e = Some er"
      using a by (simp_all add: fa tb)
    note vf = view_first [OF nf e v this]
    have c: "calls s0 + 4 = calls s + 5" "calls s0 + 6 = calls s + 7" "calls s0 + 7 = calls s + 8"
      by (simp_all add: tb)
    show ?thesis
      unfolding s'_def pe vf c
      by (simp add: tb findAssignment_def find_append_new a(1) [unfolded findAssignment_def])
  qed
  have again: "fst (processEvent env evt s) = Ok ()
          \<and> assignments s' = assignments s
          \<and> variants s' = variants s
          \<and> experiments s' = experiments s
          \<and> dailyStats s' = dailyStats s
          \<and> events s' = events s @ [viewEventRow (v_id vis) evt e v]
          \<and> liveLogs s' = liveLogs s @ [viewLiveLog evt e v (clock env (calls s + 3))]"
    if a: "findAssignment (v_id vis) e s \<noteq> None"
  proof -
    from a obtain x where "findAssignment (v_id vis) e s0 = Some x" by (auto simp: fa)
    note rep = view_repeat [OF nf e v this]
    have c: "calls s0 + 2 = calls s + 3" "calls s0 + 3 = calls s + 4"
      by (simp_all add: tb)
    show ?thesis
      unfolding s'_def pe rep c by (simp add: tb)
  qed
  show ?thesis
    using first again assignment_stays by blast
qed

lemmas ex2_defs = world1_def world2_def world3_def evtView_def

theorem C2_first_and_repeat_view_witness:
  "map as_variantId (assignments (snd (processEvent env0 evtView world2))) = [''var1'']
   \<and> variants (snd (processEvent env0 evtView world2)) ''var1''
        = Some \<lparr>var_visitors = 1, var_conversions = 0\<rparr>
   \<and> experiments (snd (processEvent env0 evtView world2)) ''exp1''
        = Some \<lparr>exp_totalVisitors = 1, exp_totalConversions = 0\<rparr>
   \<and> dailyStats (snd (processEvent env0 evtView world2)) (''exp1'', 1704240000000)
        = Some \<lparr>ds_impressions = 1, ds_conversions = 0, ds_revenue = 0\<rparr>
   \<and> length (events (snd (processEvent env0 evtView world2))) = 1
   \<and> length (liveLogs (snd (processEvent env0 evtView world2))) = 1
   \<and> assignments (snd (processEvent env0 evtView world3)) = assignments world3
   \<and> variants (snd (processEvent env0 evtView world3)) = variants world3
   \<and> experiments (snd (processEvent env0 evtView world3)) = experiments world3
   \<and> dailyStats (snd (processEvent env0 evtView world3)) = dailyStats world3
   \<and> length (events (snd (processEvent env0 evtView world3))) = 1
   \<and> length (liveLogs (snd (processEvent env0 evtView world3))) = 1"
proof -
  let ?vis = "(newVisitor env0 evt0 ''p1'' ''v1'' 1704110400000 0)\<lparr>v_lastSeen := 1704110400000,
                v_pageViews := 2\<rparr>"
  have h: "evt_eventType evtView = Some ''EXPERIMENT_VIEW''"
    "truthy (evt_projectId evtView)" "truthy (evt_visitorId evtView)"
    "evt_experimentId evtView = Some ''exp1''" "''exp1'' \<noteq> []"
    "evt_variantId evtView = Some ''var1''" "''var1'' \<noteq> []"
    by (simp_all add: evtView_def evt0_def)
  have nf: "\<And>k n. \<not> fails env0 k n" by (simp add: env0_def)
  have u2: "fst (upsertVisitor env0 evtView world2) = Ok ?vis"
    by (simp add: upsertVisitor_def newVisitor_def lookupVisitor_def ex_defs ex2_defs Let_def
          io_defs db_defs)
  have u3: "fst (upsertVisitor env0 evtView world3) = Ok ?vis"
    by (simp add: upsertVisitor_def newVisitor_def lookupVisitor_def ex_defs ex2_defs Let_def
          io_defs db_defs)
  have i: "v_id ?vis = 0" by (simp add: newVisitor_def Let_def)
  have w2: "findAssignment 0 ''exp1'' world2 = None
            \<and> variants world2 ''var1'' = Some \<lparr>var_visitors = 0, var_conversions = 0\<rparr>
            \<and> experiments world2 ''exp1''
                = Some \<lparr>exp_totalVisitors = 0, exp_totalConversions = 0\<rparr>"
    by (simp add: findAssignment_def ex_defs ex2_defs)
  have w3: "findAssignment 0 ''exp1'' world3 \<noteq> None"
    by (simp add: findAssignment_def ex_defs ex2_defs)
  have d: "startOfLocalDay env0 (clock env0 (calls world2 + 5)) = 1704240000000"
    by (simp add: startOfLocalDay_def env0_def)
  have t2: "assignments world2 = []" "dailyStats world2 = Map.empty" "events world2 = []"
    "liveLogs world2 = []"
    by (simp_all add: ex_defs ex2_defs)
  have t3: "events world3 = []" "liveLogs world3 = []"
    by (simp_all add: ex_defs ex2_defs)
  note a = C2_first_and_repeat_view [OF h nf u2, unfolded i, THEN conjunct1, rule_format, OF w2]
  note b = C2_first_and_repeat_view [OF h nf u3, unfolded i, THEN conjunct2, THEN conjunct1,
      rule_format, OF w3]
  show ?thesis
    using a b by (simp add: d t2 t3)
qed

subsection \<open>Goal conversions\<close>

lemma numOrZero_falsy: "\<not> truthyNum x \<Longrightarrow> numOrZero x = 0"
  by (cases x) simp_all

lemma body_ok:
  assumes nf: "\<And>k n. \<not> fails env k n"
    and "variants s (att_variantId a) \<noteq> None" and "experiments s (att_experimentId a) \<noteq> None"
  shows "attributionBody env i evt g a s = (Ok (), afterAttribution env i evt g a s)"
  using assms
  by (auto simp add: attributionBody_def afterAttribution_def updateDailyStat_def conversionTouch_def
        Let_def io_defs db_defs eval_nat_numeral numOrZero_falsy split: option.splits)

lemma afterAttribution_rows:
  "(variants (afterAttribution env i evt g a s) x = None) = (variants s x = None)"
  "(experiments (afterAttribution env i evt g a s) x = None) = (experiments s x = None)"
  by (auto simp: afterAttribution_def split: option.splits)

lemma loop_ok:
  assumes nf: "\<And>k n. \<not> fails env k n"
  shows "\<forall>a\<in>set as. variants s (att_variantId a) \<noteq> None \<and> experiments s (att_experimentId a) \<noteq> None
    \<Longrightarrow> attributionLoop env i evt g as s = (Ok (), afterAttributions env i evt g as s)"
proof (induction as arbitrary: s)
  case Nil
  then show ?case by (simp add: ret_io_def)
next
  case (Cons a as)
  have b: "attributionBody env i evt g a s = (Ok (), afterAttribution env i evt g a s)"
    using Cons.prems by (simp add: body_ok [OF nf])
  have "\<forall>x\<in>set as. variants (afterAttribution env i evt g a s) (att_variantId x) \<noteq> None
          \<and> experiments (afterAttribution env i evt g a s) (att_experimentId x) \<noteq> None"
    using Cons.prems by (simp add: afterAttribution_rows)
  from Cons.IH [OF this] b show ?case by (simp add: then_io_def bind_io_def)
qed

lemma after_calls: "calls (afterAttributions env i evt g as s) = calls s + 6 * length as"
  by (induction as arbitrary: s) (simp_all add: afterAttribution_def)

lemma after_goalConversions:
  "goalConversions (afterAttributions env i evt g as s) =
     goalConversions s @ map (conversionRow i evt g) as"
  by (induction as arbitrary: s) (simp_all add: afterAttribution_def)

lemma after_liveLogs:
  "liveLogs (afterAttributions env i evt g as s) = liveLogs s @ conversionLogs env (calls s) evt g as"
  by (induction as arbitrary: s) (simp_all add: afterAttribution_def)

lemma after_variants:
  "variants (afterAttributions env i evt g as s) x =
     map_option (\<lambda>r. r\<lparr>var_conversions :=
                        var_conversions r + int (count_list (map att_variantId as) x)\<rparr>)
       (variants s x)"
  by (induction as arbitrary: s)
     (auto simp add: afterAttribution_def option.map_comp option.map_ident comp_def algebra_simps
        split: option.splits)

lemma after_experiments:
  "experiments (afterAttributions env i evt g as s) x =
     map_option (\<lambda>r. r\<lparr>exp_totalConversions :=
                        exp_totalConversions r + int (count_list (map att_experimentId as) x)\<rparr>)
       (experiments s x)"
  by (induction as arbitrary: s)
     (auto simp add: afterAttribution_def option.map_comp option.map_ident comp_def algebra_simps
        split: option.splits)

lemma after_experimentGoals:
  "experimentGoals (afterAttributions env i evt g as s) =
     map (\<lambda>r. if eg_goalId r = g
              then r\<lparr>eg_conversions := eg_conversions r
                        + int (count_list (map att_experimentId as) (eg_experimentId r))\<rparr>
              else r)
       (experimentGoals s)"
proof (induction as arbitrary: s)
  case Nil
  have "map (\<lambda>r. if eg_goalId r = g
              then r\<lparr>eg_conversions := eg_conversions r
                        + int (count_list (map att_experimentId []) (eg_experimentId r))\<rparr>
              else r) (experimentGoals s) = experimentGoals s"
    by (rule map_idI) simp
  then show ?case unfolding afterAttributions.simps by (rule sym)
next
  case (Cons a as)
  show ?case
    unfolding afterAttributions.simps Cons.IH
    by (auto simp add: afterAttribution_def)
qed

lemma after_dsConversions:
  "dsConversions (afterAttributions env i evt g as s) key =
     dsConversions s key + int (count_list (touchKeys env (calls s) as) key)"
  by (induction as arbitrary: s)
     (auto simp add: afterAttribution_def dsConversions_def conversionTouch_def split: option.splits)

lemma after_dsRevenue:
  "dsRevenue (afterAttributions env i evt g as s) key =
     dsRevenue s key + int (count_list (touchKeys env (calls s) as) key) * numOrZero (evt_value evt)"
  by (induction as arbitrary: s)
     (auto simp add: afterAttribution_def dsRevenue_def conversionTouch_def algebra_simps split: option.splits)

lemma after_dailyStats_other:
  "key \<notin> set (touchKeys env (calls s) as) \<Longrightarrow>
   dailyStats (afterAttributions env i evt g as s) key = dailyStats s key"
  by (induction as arbitrary: s) (auto simp add: afterAttribution_def)

lemma length_touchKeys: "length (touchKeys env c as) = length as"
  by (induction as arbitrary: c) simp_all

lemma length_conversionLogs: "length (conversionLogs env c evt g as) = length as"
  by (induction as arbitrary: c) simp_all

lemma conversion_runs_loop:
  assumes "evt_goalId evt = Some g" "g \<noteq> []" "evt_attributedExperiments evt = Some atts"
    "atts \<noteq> []"
  shows "handleGoalConversion env i evt = attributionLoop env i evt g atts"
  using assms by (simp add: handleGoalConversion_def)

text \<open>
  C4: let a GOAL_CONVERSION event carry a goalId \<open>g\<close> and a list of \<open>k \<ge> 1\<close>
  attributions (duplicates allowed), let no database call fail and let the Variant and
  Experiment rows of every attribution exist. Processing the event appends exactly
  \<open>k\<close> GoalConversion rows, one per attribution in order; adds to the conversions of
  every variant, and to the totalConversions of every experiment, the number of
  attributions that name it; adds to every ExperimentGoal row of goal \<open>g\<close> the number
  of attributions that name its experiment; makes \<open>k\<close> daily-stat touches, each adding
  1 conversion (and the event's value as revenue) to the row of its key; and appends
  \<open>k\<close> LiveLog rows. Nothing is deduplicated.
\<close>

theorem C4_k_attributions:
  fixes env :: env and evt :: IncomingEvent and s :: world
  defines "s' \<equiv> snd (processEvent env evt s)"
  assumes ty: "evt_eventType evt = Some ''GOAL_CONVERSION''"
    and pv: "truthy (evt_projectId evt)" "truthy (evt_visitorId evt)"
    and g: "evt_goalId evt = Some g" "g \<noteq> []"
    and at: "evt_attributedExperiments evt = Some atts" "atts \<noteq> []"
    and nf: "\<And>k n. \<not> fails env k n"
    and up: "fst (upsertVisitor env evt s) = Ok vis"
    and rows: "\<forall>a\<in>set atts. variants s (att_variantId a) \<noteq> None
                 \<and> experiments s (att_experimentId a) \<noteq> None"
  shows "fst (processEvent env evt s) = Ok ()
       \<and> goalConversions s' = goalConversions s @ map (conversionRow (v_id vis) evt g) atts
       \<and> length (goalConversions s') = length (goalConversions s) + length atts
       \<and> (\<forall>x. variants s' x =
             map_option (\<lambda>r. r\<lparr>var_conversions :=
                  var_conversions r + int (count_list (map att_variantId atts) x)\<rparr>)
               (variants s x))
       \<and> (\<forall>x. experiments s' x =
             map_option (\<lambda>r. r\<lparr>exp_totalConversions :=
                  exp_totalConversions r + int (count_list (map att_experimentId atts) x)\<rparr>)
               (experiments s x))
       \<and> experimentGoals s' =
             map (\<lambda>r. if eg_goalId r = g
                      then r\<lparr>eg_conversions := eg_conversions r
                             + int (count_list (map att_experimentId atts) (eg_experimentId r))\<rparr>
                      else r)
               (experimentGoals s)
       \<and> (\<forall>key. dsConversions s' key =
             dsConversions s key + int (count_list (touchKeys env (calls s + 1) atts) key))
       \<and> (\<forall>key. dsRevenue s' key =
             dsRevenue s key
             + int (count_list (touchKeys env (calls s + 1) atts) key) * numOrZero (evt_value evt))
       \<and> length (touchKeys env (calls s + 1) atts) = length atts
       \<and> liveLogs s' = liveLogs s @ conversionLogs env (calls s + 1) evt g atts
       \<and> length (liveLogs s') = length (liveLogs s) + length atts"
proof -
  obtain s0 where u: "upsertVisitor env evt s = (Ok vis, s0)"
    using up by (cases "upsertVisitor env evt s") simp
  note tb = upsertVisitor_tables [OF u]
  have r0: "\<forall>a\<in>set atts. variants s0 (att_variantId a) \<noteq> None
                 \<and> experiments s0 (att_experimentId a) \<noteq> None"
    using rows by (simp add: tb)
  have pe: "processEvent env evt s = (Ok (), afterAttributions env (v_id vis) evt g atts s0)"
    using processEvent_valid [OF pv _ u] ty loop_ok [OF nf r0]
    by (simp add: conversion_runs_loop [OF g at])
  have s': "s' = afterAttributions env (v_id vis) evt g atts s0"
    by (simp add: s'_def pe)
  have d: "dsConversions s0 = dsConversions s" "dsRevenue s0 = dsRevenue s"
    by (simp_all add: dsConversions_def dsRevenue_def fun_eq_iff tb)
  have 1: "fst (processEvent env evt s) = Ok ()" by (simp add: pe)
  have 2: "goalConversions s' = goalConversions s @ map (conversionRow (v_id vis) evt g) atts"
    by (simp add: s' after_goalConversions tb)
  have 3: "length (goalConversions s') = length (goalConversions s) + length atts"
    by (simp add: 2)
  have 4: "variants s' x =
             map_option (\<lambda>r. r\<lparr>var_conversions :=
                  var_conversions r + int (count_list (map att_variantId atts) x)\<rparr>)
               (variants s x)" for x
    unfolding s' after_variants tb ..
  have 5: "experiments s' x =
             map_option (\<lambda>r. r\<lparr>exp_totalConversions :=
                  exp_totalConversions r + int (count_list (map att_experimentId atts) x)\<rparr>)
               (experiments s x)" for x
    unfolding s' after_experiments tb ..
  have 6: "experimentGoals s' =
             map (\<lambda>r. if eg_goalId r = g
                      then r\<lparr>eg_conversions := eg_conversions r
                             + int (count_list (map att_experimentId atts) (eg_experimentId r))\<rparr>
                      else r)
               (experimentGoals s)"
    unfolding s' after_experimentGoals tb ..
  have 7: "dsConversions s' key =
             dsConversions s key + int (count_list (touchKeys env (calls s + 1) atts) key)" for key
    unfolding s' after_dsConversions tb d ..
  have 8: "dsRevenue s' key =
             dsRevenue s key
             + int (count_list (touchKeys env (calls s + 1) atts) key) * numOrZero (evt_value evt)"
    for key
    unfolding s' after_dsRevenue tb d ..
  have 9: "liveLogs s' = liveLogs s @ conversionLogs env (calls s + 1) evt g atts"
    unfolding s' after_liveLogs tb ..
  have 10: "length (liveLogs s') = length (liveLogs s) + length atts"
    by (simp add: 9 length_conversionLogs)
  show ?thesis
    using 1 2 3 4 5 6 7 8 9 10 length_touchKeys [of env "calls s + 1" atts] by blast
qed

theorem C4_k_attributions_witness:
  "length (goalConversions (snd (processEvent env0 evtConversion world2))) = 2
   \<and> variants (snd (processEvent env0 evtConversion world2)) ''var1''
        = Some \<lparr>var_visitors = 0, var_conversions = 2\<rparr>
   \<and> experiments (snd (processEvent env0 evtConversion world2)) ''exp1''
        = Some \<lparr>exp_totalVisitors = 0, exp_totalConversions = 2\<rparr>
   \<and> map eg_conversions (experimentGoals (snd (processEvent env0 evtConversion world2))) = [2]
   \<and> dsConversions (snd (processEvent env0 evtConversion world2)) (''exp1'', 1704240000000) = 2
   \<and> dsRevenue (snd (processEvent env0 evtConversion world2)) (''exp1'', 1704240000000) = 100
   \<and> length (liveLogs (snd (processEvent env0 evtConversion world2))) = 2"
proof -
  let ?vis = "(newVisitor env0 evt0 ''p1'' ''v1'' 1704110400000 0)\<lparr>v_lastSeen := 1704110400000,
                v_pageViews := 2\<rparr>"
  let ?atts = "[\<lparr>att_experimentId = ''exp1'', att_variantId = ''var1''\<rparr>,
                \<lparr>att_experimentId = ''exp1'', att_variantId = ''var1''\<rparr>]"
  have h: "evt_eventType evtConversion = Some ''GOAL_CONVERSION''"
    "truthy (evt_projectId evtConversion)" "truthy (evt_visitorId evtConversion)"
    "evt_goalId evtConversion = Some ''g1''" "''g1'' \<noteq> []"
    "evt_attributedExperiments evtConversion = Some ?atts" "?atts \<noteq> []"
    by (simp_all add: evtConversion_def evt0_def)
  have nf: "\<And>k n. \<not> fails env0 k n" by (simp add: env0_def)
  have u: "fst (upsertVisitor env0 evtConversion world2) = Ok ?vis"
    by (simp add: upsertVisitor_def newVisitor_def lookupVisitor_def ex_defs ex2_defs
          evtConversion_def Let_def io_defs db_defs)
  have rows: "\<forall>a\<in>set ?atts. variants world2 (att_variantId a) \<noteq> None
                 \<and> experiments world2 (att_experimentId a) \<noteq> None"
    by (simp add: ex_defs ex2_defs)
  have w: "goalConversions world2 = []" "liveLogs world2 = []"
    "variants world2 ''var1'' = Some \<lparr>var_visitors = 0, var_conversions = 0\<rparr>"
    "experiments world2 ''exp1'' = Some \<lparr>exp_totalVisitors = 0, exp_totalConversions = 0\<rparr>"
    "experimentGoals world2 = [\<lparr>eg_experimentId = ''exp1'', eg_goalId = ''g1'',
                                        eg_conversions = 0\<rparr>]"
    "dsConversions world2 (''exp1'', 1704240000000) = 0"
    "dsRevenue world2 (''exp1'', 1704240000000) = 0"
    by (simp_all add: ex_defs ex2_defs dsConversions_def dsRevenue_def)
  have k: "touchKeys env0 (calls world2 + 1) ?atts
            = [(''exp1'', 1704240000000), (''exp1'', 1704240000000)]"
    by (simp add: startOfLocalDay_def env0_def)
  have v: "evt_value evtConversion = Some 50" by (simp add: evtConversion_def evt0_def)
  note c = C4_k_attributions [OF h nf u rows]
  note r = c [THEN conjunct2]
  note c3 = r [THEN conjunct2, THEN conjunct1]
  note r = r [THEN conjunct2, THEN conjunct2]
  note c4 = r [THEN conjunct1, rule_format, of "''var1''"]
  note r = r [THEN conjunct2]
  note c5 = r [THEN conjunct1, rule_format, of "''exp1''"]
  note r = r [THEN conjunct2]
  note c6 = r [THEN conjunct1]
  note r = r [THEN conjunct2]
  note c7 = r [THEN conjunct1, rule_format, of "(''exp1'', 1704240000000)"]
  note r = r [THEN conjunct2]
  note c8 = r [THEN conjunct1, rule_format, of "(''exp1'', 1704240000000)"]
  note r = r [THEN conjunct2, THEN conjunct2]
  note c11 = r [THEN conjunct2]
  have 3: "length (goalConversions (snd (processEvent env0 evtConversion world2))) = 2"
    using c3 by (simp add: w)
  have 4: "variants (snd (processEvent env0 evtConversion world2)) ''var1''
        = Some \<lparr>var_visitors = 0, var_conversions = 2\<rparr>"
    using c4 by (simp add: w)
  have 5: "experiments (snd (processEvent env0 evtConversion world2)) ''exp1''
        = Some \<lparr>exp_totalVisitors = 0, exp_totalConversions = 2\<rparr>"
    using c5 by (simp add: w)
  have 6: "map eg_conversions (experimentGoals (snd (processEvent env0 evtConversion world2)))
        = [2]"
    using c6 by (simp add: w)
  have 7: "dsConversions (snd (processEvent env0 evtConversion world2))
             (''exp1'', 1704240000000) = 2"
    using c7 unfolding k by (simp add: w)
  have 8: "dsRevenue (snd (processEvent env0 evtConversion world2))
             (''exp1'', 1704240000000) = 100"
    using c8 unfolding k v by (simp add: w)
  have 11: "length (liveLogs (snd (processEvent env0 evtConversion world2))) = 2"
    using c11 by (simp add: w)
  show ?thesis
    using 3 4 5 6 7 8 11 by blast
qed


subsection \<open>The key of the daily statistics\<close>

lemma sameErrorLines_kept: "calls_keep env sameErrorLines"
  unfolding calls_keep_def
  apply (intro conjI allI)
               apply (simp_all add: preorder_rel_def io_rel_def sameErrorLines_def errorLines_def)
              apply (simp_all add: db_defs io_defs updateDailyStat_def Let_def split: option.splits)
  done

lemma dailyKeyed_refl: "dailyKeyed env s s"
  by (simp add: dailyKeyed_def)

lemma dailyKeyed_trans:
  assumes ab: "dailyKeyed env a b" and bc: "dailyKeyed env b c"
  shows "dailyKeyed env a c"
proof -
  have le: "calls a \<le> calls b" "calls b \<le> calls c"
    using ab bc by (simp_all add: dailyKeyed_def)
  have "\<exists>n. calls a \<le> n \<and> n < calls c \<and> snd key = startOfLocalDay env (clock env n)"
    if d: "dailyStats c key \<noteq> dailyStats a key" for key
  proof (cases "dailyStats b key = dailyStats a key")
    case True
    with d have "dailyStats c key \<noteq> dailyStats b key" by simp
    with bc obtain n where "calls b \<le> n" "n < calls c"
      "snd key = startOfLocalDay env (clock env n)"
      unfolding dailyKeyed_def by blast
    with le show ?thesis by (intro exI [of _ n]) simp
  next
    case False
    with ab obtain n where "calls a \<le> n" "n < calls b"
      "snd key = startOfLocalDay env (clock env n)"
      unfolding dailyKeyed_def by blast
    with le show ?thesis by (intro exI [of _ n]) simp
  qed
  with le show ?thesis by (simp add: dailyKeyed_def)
qed

lemma dailyKeyed_preorder: "preorder_rel (dailyKeyed env)"
  unfolding preorder_rel_def using dailyKeyed_refl dailyKeyed_trans by blast

lemma dailyKeyed_tick: "dailyStats s' = dailyStats s \<Longrightarrow> calls s \<le> calls s' \<Longrightarrow> dailyKeyed env s s'"
  by (simp add: dailyKeyed_def)

lemma dailyKeyed_ops:
  "io_rel (dailyKeyed env) (db_visitor_upsert env p v c u)"
  "io_rel (dailyKeyed env) (storeCall env VisitorUpsert (throw_io ValidationError :: Visitor io))"
  "io_rel (dailyKeyed env) (db_visitor_update env n fv)"
  "io_rel (dailyKeyed env) (db_event_create env ev)"
  "io_rel (dailyKeyed env) (db_variantAssignment_findUnique env n e)"
  "io_rel (dailyKeyed env) (db_variantAssignment_create env a)"
  "io_rel (dailyKeyed env) (db_variant_update env x fr)"
  "io_rel (dailyKeyed env) (db_experiment_update env x fe)"
  "io_rel (dailyKeyed env) (db_experimentGoal_updateMany env e g fg)"
  "io_rel (dailyKeyed env) (db_goalConversion_create env gc)"
  "io_rel (dailyKeyed env) (\<lambda>s. db_liveLog_create env (lf s) s)"
  "io_rel (dailyKeyed env) (consoleLine msg)"
  unfolding io_rel_def
  by (simp_all add: dailyKeyed_tick db_defs io_defs split: option.splits)

lemma dailyKeyed_updateDailyStat: "io_rel (dailyKeyed env) (updateDailyStat env e f r)"
proof -
  have "dailyKeyed env s (snd (updateDailyStat env e f r s))" for s
  proof -
    have c: "calls (snd (updateDailyStat env e f r s)) = calls s + 1"
      by (simp add: updateDailyStat_def Let_def db_defs io_defs split: option.splits)
    have "snd key = startOfLocalDay env (clock env (calls s))"
      if "dailyStats (snd (updateDailyStat env e f r s)) key \<noteq> dailyStats s key" for key
      using that
      by (simp add: updateDailyStat_def Let_def db_defs io_defs split: option.splits if_splits)
    then show ?thesis
      unfolding dailyKeyed_def c by (intro conjI allI impI exI [of _ "calls s"]) simp_all
  qed
  then show ?thesis by (simp add: io_rel_def)
qed

lemma dailyKeyed_kept: "calls_keep env (dailyKeyed env)"
  unfolding calls_keep_def
  by (intro conjI allI dailyKeyed_preorder dailyKeyed_ops dailyKeyed_updateDailyStat)

lemma upsert_dailyStats:
  "dailyStats (snd (db_experimentDailyStat_upsert env key c u s)) = dailyStats s
   \<or> (\<exists>row. dailyStats (snd (db_experimentDailyStat_upsert env key c u s)) =
         (dailyStats s)(key \<mapsto> row))"
  by (auto simp: db_defs io_defs split: option.splits)

lemma catch_console_dailyStats:
  "dailyStats (snd (catch_io m (\<lambda>err. consoleLine msg) s)) = dailyStats (snd (m s))"
  by (simp add: catch_io_def consoleLine_def split: prod.splits result.splits)

lemma updateDailyStat_dailyStats:
  "dailyStats (snd (updateDailyStat env e f r s)) = dailyStats s
   \<or> (\<exists>row. dailyStats (snd (updateDailyStat env e f r s)) =
         (dailyStats s)((e, startOfLocalDay env (clock env (calls s))) \<mapsto> row))"
  unfolding updateDailyStat_def Let_def catch_console_dailyStats
  by (rule upsert_dailyStats)

lemma view_sample_dailyStats:
  "dailyStats (snd (processEvent env0 evtView world2)) =
     [(''exp1'', 1704240000000) \<mapsto> \<lparr>ds_impressions = 1, ds_conversions = 0, ds_revenue = 0\<rparr>]"
  by (simp add: processEvent_def handleExperimentView_def updateDailyStat_def upsertVisitor_def
        newVisitor_def lookupVisitor_def findAssignment_def startOfLocalDay_def ex_defs ex2_defs
        Let_def io_defs db_defs)

lemma statsWithin_preorder: "preorder_rel (statsWithin E)"
  unfolding preorder_rel_def statsWithin_def by metis

lemma statsWithin_same: "dailyStats s' = dailyStats s \<Longrightarrow> statsWithin E s s'"
  by (simp add: statsWithin_def)

lemma statsWithin_ops:
  "io_rel (statsWithin E) (db_visitor_upsert env p v c u)"
  "io_rel (statsWithin E) (storeCall env VisitorUpsert (throw_io ValidationError :: Visitor io))"
  "io_rel (statsWithin E) (db_visitor_update env n fv)"
  "io_rel (statsWithin E) (db_event_create env ev)"
  "io_rel (statsWithin E) (db_variantAssignment_findUnique env n e)"
  "io_rel (statsWithin E) (db_variantAssignment_create env a)"
  "io_rel (statsWithin E) (db_variant_update env x fr)"
  "io_rel (statsWithin E) (db_experiment_update env x fe)"
  "io_rel (statsWithin E) (db_experimentGoal_updateMany env e g fg)"
  "io_rel (statsWithin E) (db_goalConversion_create env gc)"
  "io_rel (statsWithin E) (\<lambda>s. db_liveLog_create env (lf s) s)"
  "io_rel (statsWithin E) (consoleLine msg)"
  unfolding io_rel_def
  by (simp_all add: statsWithin_same db_defs io_defs split: option.splits)

lemma statsWithin_updateDailyStat:
  assumes "e \<in> E"
  shows "io_rel (statsWithin E) (updateDailyStat env e f r)"
proof -
  have "fst key \<in> E"
    if d: "dailyStats (snd (updateDailyStat env e f r s)) key \<noteq> dailyStats s key" for s key
  proof -
    from updateDailyStat_dailyStats [of env e f r s] d obtain row where
      "dailyStats (snd (updateDailyStat env e f r s)) =
         (dailyStats s)((e, startOfLocalDay env (clock env (calls s))) \<mapsto> row)"
      by auto
    with d have "key = (e, startOfLocalDay env (clock env (calls s)))"
      by (auto split: if_splits)
    with assms show ?thesis by simp
  qed
  then show ?thesis by (simp add: io_rel_def statsWithin_def)
qed

lemma statsWithin_upsertVisitor: "io_rel (statsWithin E) (upsertVisitor env evt)"
  by (simp add: upsertVisitor_def statsWithin_ops split: option.splits)

lemma statsWithin_session: "io_rel (statsWithin E) (handleSessionStart env i evt)"
  unfolding handleSessionStart_def by (intro io_rel_then statsWithin_preorder statsWithin_ops)

lemma statsWithin_custom: "io_rel (statsWithin E) (handleCustomEvent env i evt)"
  unfolding handleCustomEvent_def by (rule statsWithin_ops)

lemma statsWithin_generic: "io_rel (statsWithin E) (handleGenericEvent env i evt)"
  unfolding handleGenericEvent_def by (rule statsWithin_ops)

lemma statsWithin_view:
  assumes E: "\<And>e. evt_experimentId evt = Some e \<Longrightarrow> e \<in> E"
  shows "io_rel (statsWithin E) (handleExperimentView env i evt)"
proof (cases "evt_experimentId evt"; cases "evt_variantId evt")
  fix e v assume ids: "evt_experimentId evt = Some e" "evt_variantId evt = Some v"
  note u = statsWithin_updateDailyStat [OF E [OF ids(1)]]
  from ids show ?thesis
    unfolding handleExperimentView_def
    apply (simp add: io_rel_ret statsWithin_preorder)
    apply (intro impI io_rel_bind io_rel_then statsWithin_preorder statsWithin_ops)
    subgoal for x
      by (cases x) (simp_all add: io_rel_then io_rel_ret statsWithin_preorder statsWithin_ops u)
    done
qed (simp_all add: handleExperimentView_def io_rel_ret statsWithin_preorder)

lemma statsWithin_body:
  "att_experimentId a \<in> E \<Longrightarrow> io_rel (statsWithin E) (attributionBody env i evt g a)"
  unfolding attributionBody_def
  by (intro io_rel_then statsWithin_preorder statsWithin_ops statsWithin_updateDailyStat)

lemma statsWithin_loop:
  "att_experimentId ` set as \<subseteq> E \<Longrightarrow> io_rel (statsWithin E) (attributionLoop env i evt g as)"
  by (induction as)
     (simp_all add: io_rel_then io_rel_ret statsWithin_preorder statsWithin_body)

lemma statsWithin_conversion:
  assumes E: "\<And>atts. evt_attributedExperiments evt = Some atts \<Longrightarrow>
                att_experimentId ` set atts \<subseteq> E"
  shows "io_rel (statsWithin E) (handleGoalConversion env i evt)"
proof (cases "evt_goalId evt"; cases "evt_attributedExperiments evt")
  fix g atts assume h: "evt_goalId evt = Some g" "evt_attributedExperiments evt = Some atts"
  then show ?thesis
    using statsWithin_loop [OF E [OF h(2)], of env i evt g]
    by (simp add: handleGoalConversion_def io_rel_ret statsWithin_preorder)
qed (simp_all add: handleGoalConversion_def io_rel_ret statsWithin_preorder)

lemma statsWithin_processEvent:
  "io_rel (statsWithin (touchedExperiments evt)) (processEvent env evt)"
proof -
  let ?E = "touchedExperiments evt"
  have v: "io_rel (statsWithin ?E) (handleExperimentView env i evt)"
    if "evt_eventType evt = Some ''EXPERIMENT_VIEW''" for i
    by (rule statsWithin_view) (simp add: touchedExperiments_def that)
  have c: "io_rel (statsWithin ?E) (handleGoalConversion env i evt)"
    if "evt_eventType evt = Some ''GOAL_CONVERSION''" for i
    by (rule statsWithin_conversion) (auto simp add: touchedExperiments_def that)
  have "io_rel (statsWithin ?E) (bind_io (upsertVisitor env evt)
          (\<lambda>visitor.
             if evt_eventType evt = Some ''SESSION_START''
               then handleSessionStart env (v_id visitor) evt
             else if evt_eventType evt = Some ''EXPERIMENT_VIEW''
               then handleExperimentView env (v_id visitor) evt
             else if evt_eventType evt = Some ''GOAL_CONVERSION''
               then handleGoalConversion env (v_id visitor) evt
             else if evt_eventType evt = Some ''CUSTOM_EVENT''
               then handleCustomEvent env (v_id visitor) evt
             else handleGenericEvent env (v_id visitor) evt))"
    by (rule io_rel_bind [OF statsWithin_preorder statsWithin_upsertVisitor])
       (simp add: v c statsWithin_session statsWithin_custom statsWithin_generic)
  then show ?thesis by (simp add: processEvent_def statsWithin_ops)
qed

text \<open>
  C1, as stated, fails: an experiment view stamped 2024-01-01T12:00:00Z and processed
  when the clock shows 2024-01-03T12:00:00Z (process on UTC) leaves the row of
  2024-01-01, the UTC date of its timestamp, absent and creates the row of 2024-01-03.
\<close>

theorem C1_counterexample:
  "evt_timestamp evtView = Some 1704110400000
   \<and> 1704110400000 - 1704110400000 mod 86400000 = (1704067200000 :: int)
   \<and> dailyStats world2 (''exp1'', 1704067200000) = None
   \<and> dailyStats (snd (processEvent env0 evtView world2)) (''exp1'', 1704067200000) = None
   \<and> dailyStats (snd (processEvent env0 evtView world2)) (''exp1'', 1704240000000)
        = Some \<lparr>ds_impressions = 1, ds_conversions = 0, ds_revenue = 0\<rparr>"
  by (simp add: view_sample_dailyStats) (simp add: ex_defs ex2_defs)

text \<open>
  C1, amended: every ExperimentDailyStat row that the processing of an event creates or
  changes has, for the date of its key, the instant at which the local day begins that a
  wall-clock reading taken during the processing falls in (\<^verbatim>\<open>new Date()\<close> then
  \<^verbatim>\<open>setHours(0, 0, 0, 0)\<close>, whatever the rules of the process's time zone), and this
  whatever the event's own timestamp. When the clock shows \<open>now\<close> throughout, that date
  is the local midnight of \<open>now\<close>; in a process on UTC it is
  \<open>now - now mod 86400000\<close>. One touch for experiment \<open>e\<close> writes at most the row of
  key (\<open>e\<close>, that date). The experiment of the key is the experiment of the view, or
  that of one of the attributions of the conversion; no other event changes a row.
\<close>

theorem C1_daily_stat_key:
  fixes env :: env and evt :: IncomingEvent and s :: world
  defines "s' \<equiv> snd (processEvent env evt s)"
  shows "(\<forall>key. dailyStats s' key \<noteq> dailyStats s key \<longrightarrow>
            (\<exists>n. calls s \<le> n \<and> n < calls s' \<and> snd key = localMidnight env (clock env n)))
       \<and> ((\<forall>n. clock env n = now) \<longrightarrow>
            (\<forall>key. dailyStats s' key \<noteq> dailyStats s key \<longrightarrow>
               snd key = localMidnight env now))
       \<and> ((\<forall>n. clock env n = now) \<and> (\<forall>t. localMidnight env t = t - t mod 86400000) \<longrightarrow>
            (\<forall>key. dailyStats s' key \<noteq> dailyStats s key \<longrightarrow>
               snd key = now - now mod 86400000))
       \<and> (dailyStats (snd (updateDailyStat env e f r s)) = dailyStats s
            \<or> (\<exists>row. dailyStats (snd (updateDailyStat env e f r s)) =
                  (dailyStats s)((e, localMidnight env (clock env (calls s))) \<mapsto> row)))
       \<and> (\<forall>key. dailyStats s' key \<noteq> dailyStats s key \<longrightarrow>
            evt_eventType evt = Some ''EXPERIMENT_VIEW''
              \<and> evt_experimentId evt = Some (fst key)
            \<or> evt_eventType evt = Some ''GOAL_CONVERSION''
              \<and> (\<exists>atts. evt_attributedExperiments evt = Some atts
                         \<and> fst key \<in> att_experimentId ` set atts))"
proof -
  have k: "dailyKeyed env s s'"
    using keep_processEvent [OF dailyKeyed_kept [of env], of evt]
    by (simp add: io_rel_def s'_def)
  then have 1: "\<forall>key. dailyStats s' key \<noteq> dailyStats s key \<longrightarrow>
            (\<exists>n. calls s \<le> n \<and> n < calls s' \<and> snd key = localMidnight env (clock env n))"
    by (simp add: dailyKeyed_def startOfLocalDay_def)
  have 2: "(\<forall>n. clock env n = now) \<longrightarrow>
            (\<forall>key. dailyStats s' key \<noteq> dailyStats s key \<longrightarrow>
               snd key = localMidnight env now)"
  proof (intro impI allI)
    fix key
    assume c: "\<forall>n. clock env n = now" and d: "dailyStats s' key \<noteq> dailyStats s key"
    from 1 d obtain n where "snd key = localMidnight env (clock env n)" by blast
    with c show "snd key = localMidnight env now" by simp
  qed
  have 3: "(\<forall>n. clock env n = now) \<and> (\<forall>t. localMidnight env t = t - t mod 86400000) \<longrightarrow>
            (\<forall>key. dailyStats s' key \<noteq> dailyStats s key \<longrightarrow>
               snd key = now - now mod 86400000)"
  proof (intro impI allI)
    fix key
    assume c: "(\<forall>n. clock env n = now) \<and> (\<forall>t. localMidnight env t = t - t mod 86400000)"
      and d: "dailyStats s' key \<noteq> dailyStats s key"
    from 2 c d have "snd key = localMidnight env now" by blast
    with c show "snd key = now - now mod 86400000" by simp
  qed
  have 4: "dailyStats (snd (updateDailyStat env e f r s)) = dailyStats s
            \<or> (\<exists>row. dailyStats (snd (updateDailyStat env e f r s)) =
                  (dailyStats s)((e, localMidnight env (clock env (calls s))) \<mapsto> row))"
    using updateDailyStat_dailyStats [of env e f r s] by (simp add: startOfLocalDay_def)
  have "statsWithin (touchedExperiments evt) s s'"
    using statsWithin_processEvent [of evt env] by (simp add: io_rel_def s'_def)
  then have 5: "\<forall>key. dailyStats s' key \<noteq> dailyStats s key \<longrightarrow>
            evt_eventType evt = Some ''EXPERIMENT_VIEW''
              \<and> evt_experimentId evt = Some (fst key)
            \<or> evt_eventType evt = Some ''GOAL_CONVERSION''
              \<and> (\<exists>atts. evt_attributedExperiments evt = Some atts
                         \<and> fst key \<in> att_experimentId ` set atts)"
    by (auto simp add: statsWithin_def touchedExperiments_def split: if_splits option.splits)
  show ?thesis using 1 2 3 4 5 by blast
qed

lemma newYork_dailyStats:
  "dailyStats (snd (processEvent envNewYork evtView world2)) =
     [(''exp1'', 1730606400000) \<mapsto> \<lparr>ds_impressions = 1, ds_conversions = 0, ds_revenue = 0\<rparr>]"
  by (simp add: processEvent_def handleExperimentView_def updateDailyStat_def upsertVisitor_def
        newVisitor_def lookupVisitor_def findAssignment_def startOfLocalDay_def envNewYork_def
        ex_defs ex2_defs Let_def io_defs db_defs)

theorem C1_daily_stat_key_witness:
  "dailyStats (snd (processEvent env0 evtView world2)) (''exp1'', 1704240000000)
     \<noteq> dailyStats world2 (''exp1'', 1704240000000)
   \<and> snd (''exp1'', 1704240000000 :: int) = 1704283200000 - 1704283200000 mod 86400000
   \<and> dailyStats (snd (processEvent envNewYork evtView world2)) (''exp1'', 1730606400000)
       \<noteq> dailyStats world2 (''exp1'', 1730606400000)
   \<and> localMidnight envNewYork 1730694600000 = 1730606400000
   \<and> snd (''exp1'', 1730606400000 :: int) = localMidnight envNewYork 1730694600000
   \<and> evt_experimentId evtView = Some (fst (''exp1'', 1730606400000 :: int))"
proof -
  have c: "(\<forall>n. clock env0 n = 1704283200000)
           \<and> (\<forall>t. localMidnight env0 t = t - t mod 86400000)"
    by (simp add: env0_def)
  have d: "dailyStats (snd (processEvent env0 evtView world2)) (''exp1'', 1704240000000)
     \<noteq> dailyStats world2 (''exp1'', 1704240000000)"
    by (simp add: view_sample_dailyStats) (simp add: ex_defs ex2_defs)
  have cn: "\<forall>n. clock envNewYork n = 1730694600000"
    by (simp add: envNewYork_def)
  have dn: "dailyStats (snd (processEvent envNewYork evtView world2)) (''exp1'', 1730606400000)
     \<noteq> dailyStats world2 (''exp1'', 1730606400000)"
    by (simp add: newYork_dailyStats) (simp add: ex_defs ex2_defs)
  have m: "localMidnight envNewYork 1730694600000 = 1730606400000"
    by (simp add: envNewYork_def)
  have ty: "evt_eventType evtView \<noteq> Some ''GOAL_CONVERSION''"
    by (simp add: evtView_def)
  note t = C1_daily_stat_key [of env0 evtView world2 1704283200000]
  note n = C1_daily_stat_key [of envNewYork evtView world2 1730694600000]
  have 1: "snd (''exp1'', 1704240000000 :: int) = 1704283200000 - 1704283200000 mod 86400000"
    by (rule t [THEN conjunct2, THEN conjunct2, THEN conjunct1, rule_format, OF c d])
  have 2: "snd (''exp1'', 1730606400000 :: int) = localMidnight envNewYork 1730694600000"
    by (rule n [THEN conjunct2, THEN conjunct1, rule_format, OF cn [rule_format] dn])
  have 3: "evt_experimentId evtView = Some (fst (''exp1'', 1730606400000 :: int))"
    using n [THEN conjunct2, THEN conjunct2, THEN conjunct2, THEN conjunct2, rule_format, OF dn]
      ty by blast
  show ?thesis using d 1 dn m 2 3 by (intro conjI)
qed

subsection \<open>Records and their events\<close>

lemma tryEvent_ok: "fst (tryEvent env d s) = Ok ()"
  by (simp add: tryEvent_def catch_io_def consoleLine_def split: prod.splits result.splits)

lemma tryEvent_world:
  "snd (tryEvent env d s) =
     (case processDecoded env d s of
        (Ok x, t) \<Rightarrow> t
      | (Err e, t) \<Rightarrow> t\<lparr>console := console t @ [''Event processing error:'']\<rparr>)"
  by (simp add: tryEvent_def catch_io_def consoleLine_def split: prod.splits result.splits)

lemma eventsLoop_append:
  "eventsLoop env (pre @ post) s = eventsLoop env post (eventsLoop env pre s)"
  by (induction pre arbitrary: s) simp_all

lemma length_outcomes: "length (outcomes env ds s) = length ds"
  by (induction ds arbitrary: s) simp_all

lemma tryEvent_errorLines:
  "errorLines (snd (tryEvent env d s)) =
     errorLines s + (if failed (fst (processDecoded env d s)) then 1 else 0)"
proof -
  obtain r t where p: "processDecoded env d s = (r, t)" by (cases "processDecoded env d s")
  have "sameErrorLines s t"
    using keep_processDecoded [OF sameErrorLines_kept, of env d] p
    by (auto simp: io_rel_def dest: spec [of _ s])
  then have "errorLines t = errorLines s" by (simp add: sameErrorLines_def)
  then show ?thesis
    by (cases r) (simp_all add: tryEvent_world p errorLines_def)
qed

lemma eventsLoop_errorLines:
  "errorLines (eventsLoop env ds s) = errorLines s + length (filter failed (outcomes env ds s))"
  by (induction ds arbitrary: s) (simp_all add: tryEvent_errorLines)

lemma sample_outcomes:
  "outcomes env1 [JEvent (evt0\<lparr>evt_eventType := Some ''PAGE_VIEW''\<rparr>),
                  JEvent (evt0\<lparr>evt_eventType := Some ''CLICK''\<rparr>), JEvent evtView] world0
     = [Err StoreFault, Ok (), Err RecordNotFound]"
  by (simp add: tryEvent_def processDecoded_def processEvent_def handleExperimentView_def
        handleGenericEvent_def updateDailyStat_def upsertVisitor_def
        newVisitor_def lookupVisitor_def findAssignment_def env1_def ex_defs ex2_defs
        Let_def io_defs db_defs)

subsection \<open>Failures of the Live Log\<close>

lemma storeCall_withLiveLog:
  "k \<noteq> LiveLogCreate \<Longrightarrow> storeCall (withLiveLog env) k = storeCall env k"
  by (simp add: storeCall_def withLiveLog_def fun_eq_iff)

lemma ops_withLiveLog:
  "db_visitor_upsert (withLiveLog env) = db_visitor_upsert env"
  "db_visitor_update (withLiveLog env) = db_visitor_update env"
  "db_event_create (withLiveLog env) = db_event_create env"
  "db_variantAssignment_findUnique (withLiveLog env) = db_variantAssignment_findUnique env"
  "db_variantAssignment_create (withLiveLog env) = db_variantAssignment_create env"
  "db_variant_update (withLiveLog env) = db_variant_update env"
  "db_experiment_update (withLiveLog env) = db_experiment_update env"
  "db_experimentGoal_updateMany (withLiveLog env) = db_experimentGoal_updateMany env"
  "db_goalConversion_create (withLiveLog env) = db_goalConversion_create env"
  "db_experimentDailyStat_upsert (withLiveLog env) = db_experimentDailyStat_upsert env"
  by (simp_all add: db_defs storeCall_withLiveLog fun_eq_iff)

lemma env_withLiveLog:
  "clock (withLiveLog env) = clock env" "localMidnight (withLiveLog env) = localMidnight env"
  "searchParams (withLiveLog env) = searchParams env"
  by (simp_all add: withLiveLog_def)

lemma updateDailyStat_withLiveLog: "updateDailyStat (withLiveLog env) = updateDailyStat env"
  by (simp add: updateDailyStat_def ops_withLiveLog env_withLiveLog startOfLocalDay_def fun_eq_iff)

lemma newVisitor_withLiveLog: "newVisitor (withLiveLog env) = newVisitor env"
  apply (intro ext)
  unfolding newVisitor_def env_withLiveLog
  by (rule refl)

lemma upsertVisitor_withLiveLog: "upsertVisitor (withLiveLog env) = upsertVisitor env"
  by (simp add: upsertVisitor_def newVisitor_withLiveLog ops_withLiveLog
        storeCall_withLiveLog fun_eq_iff split: option.splits)

lemma handlers_withLiveLog:
  "handleSessionStart (withLiveLog env) = handleSessionStart env"
  "handleCustomEvent (withLiveLog env) = handleCustomEvent env"
  "handleGenericEvent (withLiveLog env) = handleGenericEvent env"
  by (simp_all add: handleSessionStart_def handleCustomEvent_def handleGenericEvent_def
        ops_withLiveLog fun_eq_iff)

lemma eq_but_logs_refl: "eq_but_logs m m"
  by (simp add: eq_but_logs_def)

lemma eq_but_logs_bind:
  assumes "\<And>x. eq_but_logs (f x) (f' x)"
  shows "eq_but_logs (bind_io m f) (bind_io m f')"
  using assms
  by (auto simp add: eq_but_logs_def bind_io_def split: prod.splits result.splits)

lemma eq_but_logs_then:
  "eq_but_logs n n' \<Longrightarrow> eq_but_logs (then_io m n) (then_io m n')"
  by (simp add: then_io_def eq_but_logs_bind)

lemma eq_but_logs_liveLog:
  "eq_but_logs (\<lambda>s. db_liveLog_create env (lf s) s)
     (\<lambda>s. db_liveLog_create (withLiveLog env) (lf s) s)"
  by (simp add: eq_but_logs_def db_liveLog_create_def storeCall_def withLiveLog_def env_withLiveLog)

lemma view_but_logs:
  "eq_but_logs (handleExperimentView env i evt) (handleExperimentView (withLiveLog env) i evt)"
proof (cases "evt_experimentId evt"; cases "evt_variantId evt")
  fix e v assume "evt_experimentId evt = Some e" "evt_variantId evt = Some v"
  then show ?thesis
    unfolding handleExperimentView_def ops_withLiveLog updateDailyStat_withLiveLog env_withLiveLog
    by (auto intro!: eq_but_logs_bind eq_but_logs_then eq_but_logs_liveLog eq_but_logs_refl)
qed (simp_all add: handleExperimentView_def eq_but_logs_refl)

lemma body_but_logs:
  "eq_but_logs (attributionBody env i evt g a) (attributionBody (withLiveLog env) i evt g a)"
  unfolding attributionBody_def ops_withLiveLog updateDailyStat_withLiveLog env_withLiveLog
  by (intro eq_but_logs_then eq_but_logs_liveLog)

lemma loop_stops:
  "fst (attributionBody env i evt g a s) \<noteq> Ok ()
   \<Longrightarrow> attributionLoop env i evt g (a # rest) s = attributionBody env i evt g a s"
  by (cases "attributionBody env i evt g a s")
     (auto simp add: then_io_def bind_io_def split: result.splits)

lemma loop_single:
  "attributionLoop env i evt g [a] = attributionBody env i evt g a"
  by (auto simp add: then_io_def bind_io_def ret_io_def fun_eq_iff split: prod.splits result.splits)

lemma conversion_but_logs:
  assumes "\<forall>atts. evt_attributedExperiments evt = Some atts \<longrightarrow> length atts \<le> 1"
  shows "eq_but_logs (handleGoalConversion env i evt)
           (handleGoalConversion (withLiveLog env) i evt)"
proof (cases "evt_goalId evt"; cases "evt_attributedExperiments evt")
  fix g atts assume a: "evt_goalId evt = Some g" "evt_attributedExperiments evt = Some atts"
  show ?thesis
  proof (cases atts)
    case Nil
    with a show ?thesis by (simp add: handleGoalConversion_def eq_but_logs_refl)
  next
    case (Cons x rest)
    with assms a have "atts = [x]" by simp
    with a show ?thesis
      by (simp add: handleGoalConversion_def loop_single body_but_logs eq_but_logs_refl
            del: attributionLoop.simps)
  qed
qed (simp_all add: handleGoalConversion_def eq_but_logs_refl)

lemma processEvent_but_logs:
  assumes "evt_eventType evt = Some ''GOAL_CONVERSION'' \<longrightarrow>
             (\<forall>atts. evt_attributedExperiments evt = Some atts \<longrightarrow> length atts \<le> 1)"
  shows "eq_but_logs (processEvent env evt) (processEvent (withLiveLog env) evt)"
proof -
  let ?route = "\<lambda>env visitor.
          if evt_eventType evt = Some ''SESSION_START''
             then handleSessionStart env (v_id visitor) evt
           else if evt_eventType evt = Some ''EXPERIMENT_VIEW''
             then handleExperimentView env (v_id visitor) evt
           else if evt_eventType evt = Some ''GOAL_CONVERSION''
             then handleGoalConversion env (v_id visitor) evt
           else if evt_eventType evt = Some ''CUSTOM_EVENT''
             then handleCustomEvent env (v_id visitor) evt
           else handleGenericEvent env (v_id visitor) evt"
  have h: "eq_but_logs (?route env visitor) (?route (withLiveLog env) visitor)" for visitor
    using assms
    by (simp add: handlers_withLiveLog eq_but_logs_refl view_but_logs conversion_but_logs)
  have b: "eq_but_logs (bind_io (upsertVisitor env evt) (?route env))
             (bind_io (upsertVisitor env evt) (?route (withLiveLog env)))"
    by (rule eq_but_logs_bind) (rule h)
  show ?thesis
    unfolding processEvent_def upsertVisitor_withLiveLog
    using b by (simp add: eq_but_logs_refl)
qed

text \<open>Sequencing is associative, and the loop over a concatenation is the sequence of the loops.\<close>

lemma then_io_assoc: "then_io (then_io m n) k = then_io m (then_io n k)"
  by (auto simp add: then_io_def bind_io_def fun_eq_iff split: prod.splits result.splits)

lemma then_bind_assoc: "then_io (bind_io m f) k = bind_io m (\<lambda>x. then_io (f x) k)"
  by (auto simp add: then_io_def bind_io_def fun_eq_iff split: prod.splits result.splits)

lemma then_ret: "then_io (ret_io ()) m = m"
  by (simp add: then_io_def bind_io_def ret_io_def fun_eq_iff)

lemma then_ret_right: "then_io m (ret_io ()) = m"
  by (auto simp add: then_io_def bind_io_def ret_io_def fun_eq_iff split: prod.splits result.splits)

lemma attributionLoop_append:
  "attributionLoop env i evt g (xs @ ys) =
     then_io (attributionLoop env i evt g xs) (attributionLoop env i evt g ys)"
  by (induction xs) (simp_all add: then_ret then_io_assoc)

text \<open>
  A computation that ends with the Live Log insert: when the run in which the insert
  succeeds returns, and the insert (its last call) fails in the run at hand, the run at
  hand throws and leaves the same database without the Live Log row.
\<close>

lemma ends_with_log:
  assumes ok: "then_io pre (\<lambda>s. db_liveLog_create (withLiveLog env) (lf s) s) s = (Ok (), s')"
    and f: "fails env LiveLogCreate (calls s' - 1)"
  shows "then_io pre (\<lambda>s. db_liveLog_create env (lf s) s) s =
           (Err StoreFault, s'\<lparr>liveLogs := butlast (liveLogs s')\<rparr>)"
proof (cases "pre s")
  case (Pair r s1)
  show ?thesis
  proof (cases r)
    case (Err e)
    with Pair ok show ?thesis by (simp add: then_io_def bind_io_def)
  next
    case (Ok u)
    with Pair ok have s': "s' = s1\<lparr>calls := calls s1 + 1, liveLogs := liveLogs s1 @ [lf s1]\<rparr>"
      by (simp add: then_io_def bind_io_def db_liveLog_create_def storeCall_def withLiveLog_def)
    then have "calls s' - 1 = calls s1" by simp
    with f have "fails env LiveLogCreate (calls s1)" by simp
    with Pair Ok show ?thesis
      by (simp add: then_io_def bind_io_def db_liveLog_create_def storeCall_def s')
  qed
qed

lemma body_as_then:
  "attributionBody env i evt g a =
     then_io
       (then_io (db_goalConversion_create env (conversionRow i evt g a))
       (then_io (db_variant_update env (att_variantId a)
                   (\<lambda>r. r\<lparr>var_conversions := var_conversions r + 1\<rparr>))
       (then_io (db_experiment_update env (att_experimentId a)
                   (\<lambda>r. r\<lparr>exp_totalConversions := exp_totalConversions r + 1\<rparr>))
       (then_io (db_experimentGoal_updateMany env (att_experimentId a) g
                   (\<lambda>r. r\<lparr>eg_conversions := eg_conversions r + 1\<rparr>))
                (updateDailyStat env (att_experimentId a) Conversions (evt_value evt))))))
       (\<lambda>s. db_liveLog_create env (conversionLiveLog evt g a (clock env (calls s))) s)"
  by (simp add: attributionBody_def then_io_assoc)

lemma body_log_fails:
  assumes ok: "attributionBody (withLiveLog env) i evt g a s = (Ok (), s')"
    and f: "fails env LiveLogCreate (calls s' - 1)"
  shows "attributionBody env i evt g a s =
           (Err StoreFault, s'\<lparr>liveLogs := butlast (liveLogs s')\<rparr>)"
proof -
  note w = ok [unfolded body_as_then ops_withLiveLog updateDailyStat_withLiveLog env_withLiveLog]
  show ?thesis
    unfolding body_as_then by (rule ends_with_log [OF w f])
qed

lemma view_as_then:
  assumes "evt_experimentId evt = Some e" "e \<noteq> []" "evt_variantId evt = Some v" "v \<noteq> []"
  shows "handleExperimentView env i evt =
     then_io
       (bind_io (db_variantAssignment_findUnique env i e)
          (\<lambda>existingAssignment.
             then_io
               (case existingAssignment of
                  Some _ \<Rightarrow> ret_io ()
                | None \<Rightarrow>
                    then_io
                      (db_variantAssignment_create env
                         \<lparr>as_visitorId = i, as_experimentId = e, as_variantId = v\<rparr>)
                   (then_io
                      (db_variant_update env v (\<lambda>r. r\<lparr>var_visitors := var_visitors r + 1\<rparr>))
                   (then_io
                      (db_experiment_update env e
                         (\<lambda>r. r\<lparr>exp_totalVisitors := exp_totalVisitors r + 1\<rparr>))
                      (updateDailyStat env e Impressions None))))
               (db_event_create env (viewEventRow i evt e v))))
       (\<lambda>s. db_liveLog_create env (viewLiveLog evt e v (clock env (calls s))) s)"
  using assms by (simp add: handleExperimentView_def then_bind_assoc then_io_assoc)

lemma view_log_fails:
  assumes ids: "evt_experimentId evt = Some e" "e \<noteq> []" "evt_variantId evt = Some v" "v \<noteq> []"
    and ok: "handleExperimentView (withLiveLog env) i evt s = (Ok (), s')"
    and f: "fails env LiveLogCreate (calls s' - 1)"
  shows "handleExperimentView env i evt s =
           (Err StoreFault, s'\<lparr>liveLogs := butlast (liveLogs s')\<rparr>)"
proof -
  note w = ok [unfolded view_as_then [OF ids] ops_withLiveLog updateDailyStat_withLiveLog
      env_withLiveLog]
  show ?thesis
    unfolding view_as_then [OF ids] by (rule ends_with_log [OF w f])
qed

lemma gc_preorder: "preorder_rel (\<lambda>s s'. goalConversions s' = goalConversions s)"
  by (simp add: preorder_rel_def)

lemma gc_ops:
  "io_rel (\<lambda>s s'. goalConversions s' = goalConversions s) (db_variant_update env x fv)"
  "io_rel (\<lambda>s s'. goalConversions s' = goalConversions s) (db_experiment_update env x fe)"
  "io_rel (\<lambda>s s'. goalConversions s' = goalConversions s)
     (db_experimentGoal_updateMany env e g fg)"
  "io_rel (\<lambda>s s'. goalConversions s' = goalConversions s) (updateDailyStat env e f r)"
  "io_rel (\<lambda>s s'. goalConversions s' = goalConversions s)
     (\<lambda>s. db_liveLog_create env (lf s) s)"
  by (simp_all add: io_rel_def db_defs io_defs updateDailyStat_def Let_def split: option.splits)

lemma body_goalConversions:
  assumes ok: "attributionBody env i evt g a s = (Ok (), s')"
  shows "goalConversions s' = goalConversions s @ [conversionRow i evt g a]"
proof -
  let ?tail = "then_io (db_variant_update env (att_variantId a)
                (\<lambda>r. r\<lparr>var_conversions := var_conversions r + 1\<rparr>))
    (then_io (db_experiment_update env (att_experimentId a)
                (\<lambda>r. r\<lparr>exp_totalConversions := exp_totalConversions r + 1\<rparr>))
    (then_io (db_experimentGoal_updateMany env (att_experimentId a) g
                (\<lambda>r. r\<lparr>eg_conversions := eg_conversions r + 1\<rparr>))
    (then_io (updateDailyStat env (att_experimentId a) Conversions (evt_value evt))
             (\<lambda>s. db_liveLog_create env
                     (conversionLiveLog evt g a (clock env (calls s))) s))))"
  have t: "io_rel (\<lambda>s s'. goalConversions s' = goalConversions s) ?tail"
    by (intro io_rel_then gc_preorder gc_ops)
  have b: "attributionBody env i evt g a =
             then_io (db_goalConversion_create env (conversionRow i evt g a)) ?tail"
    by (simp add: attributionBody_def)
  obtain r s1 where c: "db_goalConversion_create env (conversionRow i evt g a) s = (r, s1)"
    by (cases "db_goalConversion_create env (conversionRow i evt g a) s")
  show ?thesis
  proof (cases r)
    case (Err e)
    with c ok show ?thesis by (simp add: b then_io_def bind_io_def)
  next
    case (Ok u)
    with c have g1: "goalConversions s1 = goalConversions s @ [conversionRow i evt g a]"
      by (auto simp add: db_goalConversion_create_def storeCall_def split: if_splits)
    from c Ok ok have "?tail s1 = (Ok (), s')" by (simp add: b then_io_def bind_io_def)
    with t have "goalConversions s' = goalConversions s1"
      by (auto simp: io_rel_def dest: spec [of _ s1])
    with g1 show ?thesis by simp
  qed
qed

lemma loop_goalConversions:
  "attributionLoop env i evt g as s = (Ok (), s') \<Longrightarrow>
   goalConversions s' = goalConversions s @ map (conversionRow i evt g) as"
proof (induction as arbitrary: s)
  case Nil
  then show ?case by (simp add: ret_io_def)
next
  case (Cons a as)
  obtain r s1 where b: "attributionBody env i evt g a s = (r, s1)"
    by (cases "attributionBody env i evt g a s")
  show ?case
  proof (cases r)
    case (Err e)
    with b Cons.prems show ?thesis by (simp add: then_io_def bind_io_def)
  next
    case (Ok u)
    with b Cons.prems have l: "attributionLoop env i evt g as s1 = (Ok (), s')"
      by (simp add: then_io_def bind_io_def)
    from b Ok have "goalConversions s1 = goalConversions s @ [conversionRow i evt g a]"
      by (simp add: body_goalConversions)
    with Cons.IH [OF l] show ?thesis by simp
  qed
qed

lemma loop_log_fails:
  assumes pre: "attributionLoop env i evt g pre s = (Ok (), s1)"
    and ok: "attributionBody (withLiveLog env) i evt g a s1 = (Ok (), s2)"
    and f: "fails env LiveLogCreate (calls s2 - 1)"
  shows "attributionLoop env i evt g (pre @ a # post) s =
           (Err StoreFault, s2\<lparr>liveLogs := butlast (liveLogs s2)\<rparr>)"
    and "goalConversions s2 = goalConversions s @ map (conversionRow i evt g) (pre @ [a])"
proof -
  have b: "attributionBody env i evt g a s1 =
             (Err StoreFault, s2\<lparr>liveLogs := butlast (liveLogs s2)\<rparr>)"
    by (rule body_log_fails [OF ok f])
  show "attributionLoop env i evt g (pre @ a # post) s =
           (Err StoreFault, s2\<lparr>liveLogs := butlast (liveLogs s2)\<rparr>)"
    using pre b by (simp add: attributionLoop_append then_io_def bind_io_def)
  show "goalConversions s2 = goalConversions s @ map (conversionRow i evt g) (pre @ [a])"
    using loop_goalConversions [OF pre] body_goalConversions [OF ok] by simp
qed

lemma tryEvent_logs:
  assumes "processDecoded env d s = (Err e, t)"
  shows "tryEvent env d s = (Ok (), t\<lparr>console := console t @ [''Event processing error:'']\<rparr>)"
  using assms by (simp add: tryEvent_def catch_io_def consoleLine_def)

lemma conversion_log_fails:
  assumes ty: "evt_eventType evt = Some ''GOAL_CONVERSION''"
    and pv: "truthy (evt_projectId evt)" "truthy (evt_visitorId evt)"
    and g: "evt_goalId evt = Some g" "g \<noteq> []"
    and at: "evt_attributedExperiments evt = Some (pre @ a # post)"
    and up: "upsertVisitor env evt s = (Ok vis, s0)"
    and pre: "attributionLoop env (v_id vis) evt g pre s0 = (Ok (), s1)"
    and ok: "attributionBody (withLiveLog env) (v_id vis) evt g a s1 = (Ok (), s2)"
    and f: "fails env LiveLogCreate (calls s2 - 1)"
  shows "processEvent env evt s = (Err StoreFault, s2\<lparr>liveLogs := butlast (liveLogs s2)\<rparr>)"
    and "goalConversions s2 =
           goalConversions s @ map (conversionRow (v_id vis) evt g) (pre @ [a])"
    and "tryEvent env (JEvent evt) s =
           (Ok (), s2\<lparr>liveLogs := butlast (liveLogs s2),
                      console := console s2 @ [''Event processing error:'']\<rparr>)"
proof -
  have ne: "pre @ a # post \<noteq> []" by simp
  have pe: "processEvent env evt s =
              attributionLoop env (v_id vis) evt g (pre @ a # post) s0"
    using processEvent_valid [OF pv _ up] ty conversion_runs_loop [OF g at ne] by simp
  show 1: "processEvent env evt s =
             (Err StoreFault, s2\<lparr>liveLogs := butlast (liveLogs s2)\<rparr>)"
    unfolding pe by (rule loop_log_fails(1) [OF pre ok f])
  show "goalConversions s2 =
           goalConversions s @ map (conversionRow (v_id vis) evt g) (pre @ [a])"
    using loop_log_fails(2) [OF pre ok f] upsertVisitor_tables(5) [OF up] by simp
  show "tryEvent env (JEvent evt) s =
           (Ok (), s2\<lparr>liveLogs := butlast (liveLogs s2),
                      console := console s2 @ [''Event processing error:'']\<rparr>)"
    using tryEvent_logs [of env "JEvent evt" s StoreFault "s2\<lparr>liveLogs := butlast (liveLogs s2)\<rparr>"] 1
    by (simp add: processDecoded_def)
qed

lemma view_event_log_fails:
  assumes ty: "evt_eventType evt = Some ''EXPERIMENT_VIEW''"
    and pv: "truthy (evt_projectId evt)" "truthy (evt_visitorId evt)"
    and ids: "evt_experimentId evt = Some e" "e \<noteq> []" "evt_variantId evt = Some v" "v \<noteq> []"
    and ok: "processEvent (withLiveLog env) evt s = (Ok (), t)"
    and f: "fails env LiveLogCreate (calls t - 1)"
  shows "processEvent env evt s = (Err StoreFault, t\<lparr>liveLogs := butlast (liveLogs t)\<rparr>)"
    and "tryEvent env (JEvent evt) s =
           (Ok (), t\<lparr>liveLogs := butlast (liveLogs t),
                     console := console t @ [''Event processing error:'']\<rparr>)"
proof -
  obtain r s0 where u: "upsertVisitor env evt s = (r, s0)" by (cases "upsertVisitor env evt s")
  have uw: "upsertVisitor (withLiveLog env) evt s = (r, s0)"
    using u by (simp add: upsertVisitor_withLiveLog)
  show 1: "processEvent env evt s = (Err StoreFault, t\<lparr>liveLogs := butlast (liveLogs t)\<rparr>)"
  proof (cases r)
    case (Err x)
    with uw ok pv ty show ?thesis by (simp add: processEvent_def bind_io_def)
  next
    case (Ok vis)
    have "processEvent (withLiveLog env) evt s =
            handleExperimentView (withLiveLog env) (v_id vis) evt s0"
      using processEvent_valid [OF pv _ uw [unfolded Ok]] ty by simp
    with ok have h: "handleExperimentView (withLiveLog env) (v_id vis) evt s0 = (Ok (), t)"
      by simp
    have "processEvent env evt s = handleExperimentView env (v_id vis) evt s0"
      using processEvent_valid [OF pv _ u [unfolded Ok]] ty by simp
    with view_log_fails [OF ids h f] show ?thesis by simp
  qed
  show "tryEvent env (JEvent evt) s =
           (Ok (), t\<lparr>liveLogs := butlast (liveLogs t),
                     console := console t @ [''Event processing error:'']\<rparr>)"
    using tryEvent_logs [of env "JEvent evt" s StoreFault "t\<lparr>liveLogs := butlast (liveLogs t)\<rparr>"] 1
    by (simp add: processDecoded_def)
qed

lemma ends_with_log_never:
  assumes "\<And>n. fails env LiveLogCreate n"
  shows "fst (then_io pre (\<lambda>s. db_liveLog_create env (lf s) s) s) \<noteq> Ok ()"
proof (cases "pre s")
  case (Pair r s1)
  then show ?thesis
    using assms by (cases r) (simp_all add: then_io_def bind_io_def db_liveLog_create_def
        storeCall_def)
qed

lemma body_never_ok:
  assumes "\<And>n. fails env LiveLogCreate n"
  shows "fst (attributionBody env i evt g a s) \<noteq> Ok ()"
  unfolding body_as_then by (rule ends_with_log_never [OF assms])

lemma loop_never_ok:
  assumes "\<And>n. fails env LiveLogCreate n"
  shows "fst (attributionLoop env i evt g (a # rest) s) \<noteq> Ok ()"
  using body_never_ok [OF assms, of i evt g a s]
  by (cases "attributionBody env i evt g a s"; cases "fst (attributionBody env i evt g a s)")
     (simp_all add: then_io_def bind_io_def)

lemma view_never_ok:
  assumes "\<And>n. fails env LiveLogCreate n"
    and ids: "evt_experimentId evt = Some e" "e \<noteq> []" "evt_variantId evt = Some v" "v \<noteq> []"
  shows "fst (handleExperimentView env i evt s) \<noteq> Ok ()"
  unfolding view_as_then [OF ids] by (rule ends_with_log_never [OF assms(1)])

lemma processEvent_never_ok:
  assumes f: "\<And>n. fails env LiveLogCreate n"
    and pv: "truthy (evt_projectId evt)" "truthy (evt_visitorId evt)"
    and k: "evt_eventType evt = Some ''EXPERIMENT_VIEW'' \<and> truthy (evt_experimentId evt)
              \<and> truthy (evt_variantId evt)
            \<or> evt_eventType evt = Some ''GOAL_CONVERSION'' \<and> truthy (evt_goalId evt)
              \<and> evt_attributedExperiments evt = Some (a # rest)"
  shows "fst (processEvent env evt s) \<noteq> Ok ()"
proof -
  obtain r s0 where u: "upsertVisitor env evt s = (r, s0)" by (cases "upsertVisitor env evt s")
  have ty: "truthy (evt_eventType evt)" using k by auto
  show ?thesis
  proof (cases r)
    case (Err x)
    with u pv ty show ?thesis by (simp add: processEvent_def bind_io_def)
  next
    case (Ok vis)
    note pe = processEvent_valid [OF pv ty u [unfolded Ok]]
    from k show ?thesis
    proof
      assume v: "evt_eventType evt = Some ''EXPERIMENT_VIEW'' \<and> truthy (evt_experimentId evt)
              \<and> truthy (evt_variantId evt)"
      then obtain e w where ids: "evt_experimentId evt = Some e" "e \<noteq> []"
          "evt_variantId evt = Some w" "w \<noteq> []"
        by (cases "evt_experimentId evt"; cases "evt_variantId evt") auto
      from v pe have "processEvent env evt s = handleExperimentView env (v_id vis) evt s0"
        by simp
      with view_never_ok [OF f ids] show ?thesis by simp
    next
      assume c: "evt_eventType evt = Some ''GOAL_CONVERSION'' \<and> truthy (evt_goalId evt)
              \<and> evt_attributedExperiments evt = Some (a # rest)"
      then obtain g where g: "evt_goalId evt = Some g" "g \<noteq> []"
        by (cases "evt_goalId evt") auto
      from c have at: "evt_attributedExperiments evt = Some (a # rest)" by simp
      have ne: "a # rest \<noteq> []" by simp
      from c pe have "processEvent env evt s = handleGoalConversion env (v_id vis) evt s0"
        by simp
      with conversion_runs_loop [OF g at ne] loop_never_ok [OF f] show ?thesis by simp
    qed
  qed
qed

lemma tryEvent_console:
  assumes "fst (processEvent env evt s) \<noteq> Ok ()"
  shows "snd (tryEvent env (JEvent evt) s) =
           (snd (processEvent env evt s))
             \<lparr>console := console (snd (processEvent env evt s)) @ [''Event processing error:'']\<rparr>"
proof (cases "processEvent env evt s")
  case (Pair r t)
  with assms obtain e where "r = Err e" by (cases r) auto
  with Pair show ?thesis
    using tryEvent_logs [of env "JEvent evt" s e t] by (simp add: processDecoded_def)
qed

text \<open>
  C5, as stated, fails: when the Live Log insert of the first of two attributions
  fails, the exception leaves the loop, so the second attribution gets no
  GoalConversion row, although it would have got one had the insert succeeded.
\<close>

theorem C5_counterexample:
  "fst (processEvent envLogFails evtConversion world2) = Err StoreFault
   \<and> length (goalConversions (snd (processEvent envLogFails evtConversion world2))) = 1
   \<and> length (goalConversions (snd (processEvent (withLiveLog envLogFails) evtConversion world2)))
       = 2"
  by (simp add: processEvent_def handleGoalConversion_def attributionBody_def
        updateDailyStat_def upsertVisitor_def newVisitor_def lookupVisitor_def
        startOfLocalDay_def envLogFails_def withLiveLog_def evtConversion_def ex_defs ex2_defs
        Let_def io_defs db_defs)

text \<open>
  C5, amended: a failure of a Live Log insert is not caught where it happens. It is thrown
  out of the handler of the event, so that processing the event fails; the try/catch of
  the handler's loop over the events catches it there, writes the line
  "Event processing error:" and goes on (the event's run always ends without an exception
  there). For every event but a conversion with two or more attributions, the Live Log
  insert is the last call, so the database is, apart from the Live Log table, what it
  would be had the insert succeeded. In the loop of a conversion, the body for one
  attribution leaves, apart from the Live Log table, what it would have left had its
  insert succeeded; but when the body fails, the loop ends there and nothing is done
  for the remaining attributions. In detail: when every Live Log insert fails, processing
  an experiment view with an experimentId and a variantId, or a conversion with a goalId
  and at least one attribution, fails, and the loop over the events adds the error line
  to what the failed run left. When the run of a view in which Live Log inserts succeed
  returns, and its last call, the Live Log insert, fails in the run at hand, then the
  run at hand throws that failure and leaves the same database without the Live Log row.
  When the attributions of a conversion are \<open>pre @ a # post\<close>, those of \<open>pre\<close> are
  processed without failure and the Live Log insert for \<open>a\<close> fails with nothing before
  it failing, then processing the event throws that failure after the five other calls
  for \<open>a\<close>: GoalConversion rows exist for \<open>pre\<close> and \<open>a\<close> and none for \<open>post\<close>.
\<close>

theorem C5_live_log_failure:
  "((evt_eventType evt = Some ''GOAL_CONVERSION'' \<longrightarrow>
       (\<forall>atts. evt_attributedExperiments evt = Some atts \<longrightarrow> length atts \<le> 1)) \<longrightarrow>
      (snd (processEvent env evt s))\<lparr>liveLogs := L\<rparr> =
        (snd (processEvent (withLiveLog env) evt s))\<lparr>liveLogs := L\<rparr>)
   \<and> fst (tryEvent env d s) = Ok ()
   \<and> (snd (attributionBody env i evt g a s))\<lparr>liveLogs := L\<rparr> =
        (snd (attributionBody (withLiveLog env) i evt g a s))\<lparr>liveLogs := L\<rparr>
   \<and> (fst (attributionBody env i evt g a s) \<noteq> Ok () \<longrightarrow>
        attributionLoop env i evt g (a # rest) s = attributionBody env i evt g a s)
   \<and> ((\<forall>n. fails env LiveLogCreate n)
        \<and> truthy (evt_projectId evt) \<and> truthy (evt_visitorId evt)
        \<and> (evt_eventType evt = Some ''EXPERIMENT_VIEW'' \<and> truthy (evt_experimentId evt)
             \<and> truthy (evt_variantId evt)
           \<or> evt_eventType evt = Some ''GOAL_CONVERSION'' \<and> truthy (evt_goalId evt)
             \<and> (\<exists>atts. evt_attributedExperiments evt = Some atts \<and> atts \<noteq> [])) \<longrightarrow>
        fst (processEvent env evt s) \<noteq> Ok ()
        \<and> snd (tryEvent env (JEvent evt) s) =
            (snd (processEvent env evt s))
              \<lparr>console := console (snd (processEvent env evt s)) @
                            [''Event processing error:'']\<rparr>)
   \<and> (evt_eventType evt = Some ''EXPERIMENT_VIEW''
        \<and> truthy (evt_projectId evt) \<and> truthy (evt_visitorId evt)
        \<and> truthy (evt_experimentId evt) \<and> truthy (evt_variantId evt)
        \<and> processEvent (withLiveLog env) evt s = (Ok (), t)
        \<and> fails env LiveLogCreate (calls t - 1) \<longrightarrow>
        processEvent env evt s = (Err StoreFault, t\<lparr>liveLogs := butlast (liveLogs t)\<rparr>)
        \<and> tryEvent env (JEvent evt) s =
            (Ok (), t\<lparr>liveLogs := butlast (liveLogs t),
                      console := console t @ [''Event processing error:'']\<rparr>))
   \<and> (evt_eventType evt = Some ''GOAL_CONVERSION''
        \<and> truthy (evt_projectId evt) \<and> truthy (evt_visitorId evt)
        \<and> evt_goalId evt = Some g \<and> g \<noteq> []
        \<and> evt_attributedExperiments evt = Some (pre @ a # post)
        \<and> upsertVisitor env evt s = (Ok vis, s0)
        \<and> attributionLoop env (v_id vis) evt g pre s0 = (Ok (), s1)
        \<and> attributionBody (withLiveLog env) (v_id vis) evt g a s1 = (Ok (), s2)
        \<and> fails env LiveLogCreate (calls s2 - 1) \<longrightarrow>
        processEvent env evt s = (Err StoreFault, s2\<lparr>liveLogs := butlast (liveLogs s2)\<rparr>)
        \<and> goalConversions s2 =
            goalConversions s @ map (conversionRow (v_id vis) evt g) (pre @ [a])
        \<and> tryEvent env (JEvent evt) s =
            (Ok (), s2\<lparr>liveLogs := butlast (liveLogs s2),
                       console := console s2 @ [''Event processing error:'']\<rparr>))"
proof (intro conjI impI)
  show "fst (tryEvent env d s) = Ok ()" by (rule tryEvent_ok)
  show "(snd (attributionBody env i evt g a s))\<lparr>liveLogs := L\<rparr> =
        (snd (attributionBody (withLiveLog env) i evt g a s))\<lparr>liveLogs := L\<rparr>"
    using body_but_logs [of env i evt g a] unfolding eq_but_logs_def by blast
next
  assume "evt_eventType evt = Some ''GOAL_CONVERSION'' \<longrightarrow>
       (\<forall>atts. evt_attributedExperiments evt = Some atts \<longrightarrow> length atts \<le> 1)"
  then show "(snd (processEvent env evt s))\<lparr>liveLogs := L\<rparr> =
        (snd (processEvent (withLiveLog env) evt s))\<lparr>liveLogs := L\<rparr>"
    using processEvent_but_logs [of evt env] unfolding eq_but_logs_def by blast
next
  assume "fst (attributionBody env i evt g a s) \<noteq> Ok ()"
  then show "attributionLoop env i evt g (a # rest) s = attributionBody env i evt g a s"
    by (rule loop_stops)
next
  assume h: "(\<forall>n. fails env LiveLogCreate n)
        \<and> truthy (evt_projectId evt) \<and> truthy (evt_visitorId evt)
        \<and> (evt_eventType evt = Some ''EXPERIMENT_VIEW'' \<and> truthy (evt_experimentId evt)
             \<and> truthy (evt_variantId evt)
           \<or> evt_eventType evt = Some ''GOAL_CONVERSION'' \<and> truthy (evt_goalId evt)
             \<and> (\<exists>atts. evt_attributedExperiments evt = Some atts \<and> atts \<noteq> []))"
  then have f: "\<And>n. fails env LiveLogCreate n"
    and pv: "truthy (evt_projectId evt)" "truthy (evt_visitorId evt)" by simp_all
  from h obtain b bs where
    k: "evt_eventType evt = Some ''EXPERIMENT_VIEW'' \<and> truthy (evt_experimentId evt)
              \<and> truthy (evt_variantId evt)
            \<or> evt_eventType evt = Some ''GOAL_CONVERSION'' \<and> truthy (evt_goalId evt)
              \<and> evt_attributedExperiments evt = Some (b # bs)"
    by (metis neq_Nil_conv)
  show n: "fst (processEvent env evt s) \<noteq> Ok ()"
    by (rule processEvent_never_ok [OF f pv k])
  show "snd (tryEvent env (JEvent evt) s) =
            (snd (processEvent env evt s))
              \<lparr>console := console (snd (processEvent env evt s)) @
                            [''Event processing error:'']\<rparr>"
    by (rule tryEvent_console [OF n])
next
  assume h: "evt_eventType evt = Some ''EXPERIMENT_VIEW''
        \<and> truthy (evt_projectId evt) \<and> truthy (evt_visitorId evt)
        \<and> truthy (evt_experimentId evt) \<and> truthy (evt_variantId evt)
        \<and> processEvent (withLiveLog env) evt s = (Ok (), t)
        \<and> fails env LiveLogCreate (calls t - 1)"
  then obtain e w where ids: "evt_experimentId evt = Some e" "e \<noteq> []"
      "evt_variantId evt = Some w" "w \<noteq> []"
    by (cases "evt_experimentId evt"; cases "evt_variantId evt") auto
  from h have ty: "evt_eventType evt = Some ''EXPERIMENT_VIEW''"
    and pv: "truthy (evt_projectId evt)" "truthy (evt_visitorId evt)"
    and ok: "processEvent (withLiveLog env) evt s = (Ok (), t)"
    and f: "fails env LiveLogCreate (calls t - 1)" by simp_all
  show "processEvent env evt s = (Err StoreFault, t\<lparr>liveLogs := butlast (liveLogs t)\<rparr>)"
    by (rule view_event_log_fails(1) [OF ty pv ids ok f])
  show "tryEvent env (JEvent evt) s =
            (Ok (), t\<lparr>liveLogs := butlast (liveLogs t),
                      console := console t @ [''Event processing error:'']\<rparr>)"
    by (rule view_event_log_fails(2) [OF ty pv ids ok f])
next
  assume h: "evt_eventType evt = Some ''GOAL_CONVERSION''
        \<and> truthy (evt_projectId evt) \<and> truthy (evt_visitorId evt)
        \<and> evt_goalId evt = Some g \<and> g \<noteq> []
        \<and> evt_attributedExperiments evt = Some (pre @ a # post)
        \<and> upsertVisitor env evt s = (Ok vis, s0)
        \<and> attributionLoop env (v_id vis) evt g pre s0 = (Ok (), s1)
        \<and> attributionBody (withLiveLog env) (v_id vis) evt g a s1 = (Ok (), s2)
        \<and> fails env LiveLogCreate (calls s2 - 1)"
  then have ty: "evt_eventType evt = Some ''GOAL_CONVERSION''"
    and pv: "truthy (evt_projectId evt)" "truthy (evt_visitorId evt)"
    and g: "evt_goalId evt = Some g" "g \<noteq> []"
    and at: "evt_attributedExperiments evt = Some (pre @ a # post)"
    and up: "upsertVisitor env evt s = (Ok vis, s0)"
    and pre: "attributionLoop env (v_id vis) evt g pre s0 = (Ok (), s1)"
    and ok: "attributionBody (withLiveLog env) (v_id vis) evt g a s1 = (Ok (), s2)"
    and f: "fails env LiveLogCreate (calls s2 - 1)" by simp_all
  show "processEvent env evt s = (Err StoreFault, s2\<lparr>liveLogs := butlast (liveLogs s2)\<rparr>)"
    by (rule conversion_log_fails(1) [OF ty pv g at up pre ok f])
  show "goalConversions s2 =
            goalConversions s @ map (conversionRow (v_id vis) evt g) (pre @ [a])"
    by (rule conversion_log_fails(2) [OF ty pv g at up pre ok f])
  show "tryEvent env (JEvent evt) s =
            (Ok (), s2\<lparr>liveLogs := butlast (liveLogs s2),
                       console := console s2 @ [''Event processing error:'']\<rparr>)"
    by (rule conversion_log_fails(3) [OF ty pv g at up pre ok f])
qed

theorem C5_live_log_failure_witness:
  "fst (processEvent envLogFails evtView world2) = Err StoreFault
   \<and> fst (processEvent (withLiveLog envLogFails) evtView world2) = Ok ()
   \<and> (snd (processEvent envLogFails evtView world2))\<lparr>liveLogs := []\<rparr> =
       (snd (processEvent (withLiveLog envLogFails) evtView world2))\<lparr>liveLogs := []\<rparr>
   \<and> fst (attributionBody envLogFails 0 evtConversion ''g1''
            \<lparr>att_experimentId = ''exp1'', att_variantId = ''var1''\<rparr> world2) = Err StoreFault
   \<and> attributionLoop envLogFails 0 evtConversion ''g1''
        [\<lparr>att_experimentId = ''exp1'', att_variantId = ''var1''\<rparr>,
         \<lparr>att_experimentId = ''exp1'', att_variantId = ''var1''\<rparr>] world2 =
      attributionBody envLogFails 0 evtConversion ''g1''
        \<lparr>att_experimentId = ''exp1'', att_variantId = ''var1''\<rparr> world2
   \<and> fst (processEvent envLogFails evtConversion world2) \<noteq> Ok ()
   \<and> snd (tryEvent envLogFails (JEvent evtConversion) world2) =
       (snd (processEvent envLogFails evtConversion world2))
         \<lparr>console := console (snd (processEvent envLogFails evtConversion world2)) @
                       [''Event processing error:'']\<rparr>
   \<and> processEvent envLogFails evtView world2 =
       (Err StoreFault,
        (snd (processEvent (withLiveLog envLogFails) evtView world2))
          \<lparr>liveLogs :=
             butlast (liveLogs (snd (processEvent (withLiveLog envLogFails) evtView world2)))\<rparr>)
   \<and> length (liveLogs (snd (processEvent (withLiveLog envLogFails) evtView world2))) = 1
   \<and> goalConversions (snd (processEvent envLogFails evtConversion world2)) =
       [conversionRow 0 evtConversion ''g1''
          \<lparr>att_experimentId = ''exp1'', att_variantId = ''var1''\<rparr>]
   \<and> length (the (evt_attributedExperiments evtConversion)) = 2"
proof -
  let ?a = "\<lparr>att_experimentId = ''exp1'', att_variantId = ''var1''\<rparr>"
  let ?t = "snd (processEvent (withLiveLog envLogFails) evtView world2)"
  let ?s0 = "snd (upsertVisitor envLogFails evtConversion world2)"
  let ?s2 = "snd (attributionBody (withLiveLog envLogFails) 0 evtConversion ''g1'' ?a ?s0)"
  have h: "evt_eventType evtView = Some ''GOAL_CONVERSION'' \<longrightarrow>
       (\<forall>atts. evt_attributedExperiments evtView = Some atts \<longrightarrow> length atts \<le> 1)"
    by (simp add: evtView_def evt0_def)
  have 1: "fst (processEvent envLogFails evtView world2) = Err StoreFault"
    by (simp add: processEvent_def handleExperimentView_def updateDailyStat_def
          upsertVisitor_def newVisitor_def lookupVisitor_def findAssignment_def
          startOfLocalDay_def envLogFails_def ex_defs ex2_defs Let_def io_defs db_defs)
  have 2: "fst (processEvent (withLiveLog envLogFails) evtView world2) = Ok ()"
    by (simp add: processEvent_def handleExperimentView_def updateDailyStat_def
          upsertVisitor_def newVisitor_def lookupVisitor_def findAssignment_def
          startOfLocalDay_def envLogFails_def withLiveLog_def ex_defs ex2_defs Let_def io_defs
          db_defs)
  have l: "length (liveLogs ?t) = 1"
    by (simp add: processEvent_def handleExperimentView_def updateDailyStat_def
          upsertVisitor_def newVisitor_def lookupVisitor_def findAssignment_def
          startOfLocalDay_def envLogFails_def withLiveLog_def ex_defs ex2_defs Let_def io_defs
          db_defs)
  have b: "fst (attributionBody envLogFails 0 evtConversion ''g1'' ?a world2) = Err StoreFault"
    by (simp add: attributionBody_def updateDailyStat_def startOfLocalDay_def envLogFails_def
          ex_defs ex2_defs Let_def io_defs db_defs)
  then have nb: "fst (attributionBody envLogFails 0 evtConversion ''g1'' ?a world2) \<noteq> Ok ()"
    by simp
  have f: "\<And>n. fails envLogFails LiveLogCreate n" by (simp add: envLogFails_def)
  have u: "\<exists>vis. upsertVisitor envLogFails evtConversion world2 = (Ok vis, ?s0) \<and> v_id vis = 0"
    by (simp add: upsertVisitor_def newVisitor_def lookupVisitor_def envLogFails_def
          evtConversion_def ex_defs ex2_defs Let_def io_defs db_defs)
  then obtain vis where up: "upsertVisitor envLogFails evtConversion world2 = (Ok vis, ?s0)"
    and vid: "v_id vis = 0" by blast
  have g0: "goalConversions world2 = []" by (simp add: ex_defs ex2_defs)
  have bo: "fst (attributionBody (withLiveLog envLogFails) 0 evtConversion ''g1'' ?a ?s0) = Ok ()"
    by (simp add: attributionBody_def updateDailyStat_def startOfLocalDay_def envLogFails_def
          withLiveLog_def upsertVisitor_def newVisitor_def lookupVisitor_def evtConversion_def
          ex_defs ex2_defs Let_def io_defs db_defs)
  have ev: "evt_eventType evtConversion = Some ''GOAL_CONVERSION''"
    "truthy (evt_projectId evtConversion)" "truthy (evt_visitorId evtConversion)"
    "evt_goalId evtConversion = Some ''g1''" "truthy (evt_goalId evtConversion)"
    "evt_attributedExperiments evtConversion = Some ([] @ ?a # [?a])"
    by (simp_all add: evtConversion_def evt0_def)
  have vw: "evt_eventType evtView = Some ''EXPERIMENT_VIEW''"
    "truthy (evt_projectId evtView)" "truthy (evt_visitorId evtView)"
    "truthy (evt_experimentId evtView)" "truthy (evt_variantId evtView)"
    by (simp_all add: evtView_def evt0_def)
  note c = C5_live_log_failure [where evt = evtView and env = envLogFails and s = world2
      and L = "[]" and t = ?t]
  note c' = C5_live_log_failure [where evt = evtConversion and env = envLogFails
      and s = world2 and i = 0 and g = "''g1''" and a = ?a and rest = "[?a]"
      and pre = "[]" and post = "[?a]" and vis = vis and ?s0.0 = ?s0 and ?s1.0 = ?s0
      and ?s2.0 = ?s2]
  have 3: "(snd (processEvent envLogFails evtView world2))\<lparr>liveLogs := []\<rparr> =
       (snd (processEvent (withLiveLog envLogFails) evtView world2))\<lparr>liveLogs := []\<rparr>"
    using c [THEN conjunct1] h by blast
  have 4: "attributionLoop envLogFails 0 evtConversion ''g1'' [?a, ?a] world2 =
      attributionBody envLogFails 0 evtConversion ''g1'' ?a world2"
    using c' [THEN conjunct2, THEN conjunct2, THEN conjunct2, THEN conjunct1] nb by blast
  have ex: "\<exists>atts. evt_attributedExperiments evtConversion = Some atts \<and> atts \<noteq> []"
    using ev(6) by simp
  have 5: "fst (processEvent envLogFails evtConversion world2) \<noteq> Ok ()
     \<and> snd (tryEvent envLogFails (JEvent evtConversion) world2) =
       (snd (processEvent envLogFails evtConversion world2))
         \<lparr>console := console (snd (processEvent envLogFails evtConversion world2)) @
                       [''Event processing error:'']\<rparr>"
    using c' [THEN conjunct2, THEN conjunct2, THEN conjunct2, THEN conjunct2, THEN conjunct1]
      f ev(1,2,3,5) ex by blast
  have tp: "processEvent (withLiveLog envLogFails) evtView world2 = (Ok (), ?t)"
    using 2 by (simp add: prod_eq_iff)
  have 6: "processEvent envLogFails evtView world2 =
       (Err StoreFault, ?t\<lparr>liveLogs := butlast (liveLogs ?t)\<rparr>)"
    using c [THEN conjunct2, THEN conjunct2, THEN conjunct2, THEN conjunct2, THEN conjunct2,
        THEN conjunct1] vw tp f by blast
  have lp: "attributionLoop envLogFails (v_id vis) evtConversion ''g1'' [] ?s0 = (Ok (), ?s0)"
    by (simp add: ret_io_def)
  have bp: "attributionBody (withLiveLog envLogFails) (v_id vis) evtConversion ''g1'' ?a ?s0
              = (Ok (), ?s2)"
    using bo by (simp add: prod_eq_iff vid)
  have ne: "''g1'' \<noteq> []" by simp
  have 7: "processEvent envLogFails evtConversion world2 =
             (Err StoreFault, ?s2\<lparr>liveLogs := butlast (liveLogs ?s2)\<rparr>)
           \<and> goalConversions ?s2 =
               goalConversions world2 @ map (conversionRow (v_id vis) evtConversion ''g1'') ([] @ [?a])"
    using c' [THEN conjunct2, THEN conjunct2, THEN conjunct2, THEN conjunct2, THEN conjunct2,
        THEN conjunct2] ev(1,2,3,4,6) ne up lp bp f by blast
  then have 8: "goalConversions (snd (processEvent envLogFails evtConversion world2)) =
       [conversionRow 0 evtConversion ''g1'' ?a]"
    by (simp add: vid g0)
  have 9: "length (the (evt_attributedExperiments evtConversion)) = 2"
    by (simp add: evtConversion_def)
  show ?thesis using 1 2 3 b 4 5 6 l 8 9 by blast
qed

subsection \<open>What a failing event leaves\<close>

lemma cut_runD:
  assumes "cut_run m m'" and "m s = (r, t)"
  shows "calls s \<le> calls t"
    and "calls t \<le> n \<Longrightarrow> m' n s = (r, t)"
    and "failed r \<Longrightarrow> calls s < calls t"
    and "failed r \<Longrightarrow> snd (m' (calls t - 1) s) = t"
    and "failed r \<Longrightarrow> failed (fst (m' (calls t - 1) s))"
  using assms(1) [unfolded cut_run_def, THEN spec, of s] assms(2) by simp_all

lemma failed_Err: "failed r \<Longrightarrow> \<exists>e. r = Err e"
  by (cases r) simp_all

lemma cut_ret: "cut_run (ret_io x) (\<lambda>n. ret_io x)"
  by (simp add: cut_run_def ret_io_def)

lemma cut_console: "cut_run (consoleLine l) (\<lambda>n. consoleLine l)"
  by (simp add: cut_run_def consoleLine_def)

lemma cut_bind:
  assumes m: "cut_run m m'" and f: "\<And>x. cut_run (f x) (f' x)"
  shows "cut_run (bind_io m f) (\<lambda>n. bind_io (m' n) (\<lambda>x. f' x n))"
  unfolding cut_run_def
proof (intro allI)
  fix s
  obtain r s1 where ms: "m s = (r, s1)" by (cases "m s")
  note dm = cut_runD [OF m ms]
  show "calls s \<le> calls (snd (bind_io m f s))
          \<and> (\<forall>n. calls (snd (bind_io m f s)) \<le> n \<longrightarrow>
                 bind_io (m' n) (\<lambda>x. f' x n) s = bind_io m f s)
          \<and> (failed (fst (bind_io m f s)) \<longrightarrow>
                calls s < calls (snd (bind_io m f s))
                \<and> snd (bind_io (m' (calls (snd (bind_io m f s)) - 1))
                          (\<lambda>x. f' x (calls (snd (bind_io m f s)) - 1)) s) =
                    snd (bind_io m f s)
                \<and> failed (fst (bind_io (m' (calls (snd (bind_io m f s)) - 1))
                                 (\<lambda>x. f' x (calls (snd (bind_io m f s)) - 1)) s)))"
  proof (cases r)
    case (Err e)
    then have b: "bind_io m f s = (Err e, s1)" using ms by (simp add: bind_io_def)
    have fr: "failed r" using Err by simp
    obtain r' where c: "m' (calls s1 - 1) s = (r', s1)" and fr': "failed r'"
      using dm(4) [OF fr] dm(5) [OF fr] by (cases "m' (calls s1 - 1) s") auto
    from failed_Err [OF fr'] obtain e' where e': "r' = Err e'" by blast
    show ?thesis
      unfolding b using dm(1) dm(2) dm(3) [OF fr] Err c e'
      by (simp add: bind_io_def)
  next
    case (Ok x)
    obtain r2 t where fs: "f x s1 = (r2, t)" by (cases "f x s1")
    note df = cut_runD [OF f fs]
    have b: "bind_io m f s = (r2, t)" using ms Ok fs by (simp add: bind_io_def)
    have 1: "calls s \<le> calls t" using dm(1) df(1) by simp
    have 2: "bind_io (m' n) (\<lambda>x. f' x n) s = (r2, t)" if "calls t \<le> n" for n
    proof -
      have "calls s1 \<le> n" using that df(1) by simp
      then have "m' n s = (Ok x, s1)" using dm(2) Ok by simp
      then show ?thesis using df(2) [OF that] by (simp add: bind_io_def)
    qed
    have 3: "calls s < calls t
             \<and> snd (bind_io (m' (calls t - 1)) (\<lambda>x. f' x (calls t - 1)) s) = t
             \<and> failed (fst (bind_io (m' (calls t - 1)) (\<lambda>x. f' x (calls t - 1)) s))"
      if fr: "failed r2"
    proof -
      have lt: "calls s1 < calls t" by (rule df(3) [OF fr])
      then have "calls s1 \<le> calls t - 1" by simp
      then have "m' (calls t - 1) s = (Ok x, s1)" using dm(2) Ok by simp
      then have "bind_io (m' (calls t - 1)) (\<lambda>x. f' x (calls t - 1)) s =
                   f' x (calls t - 1) s1"
        by (simp add: bind_io_def)
      then show ?thesis using df(4) [OF fr] df(5) [OF fr] lt dm(1) by simp
    qed
    show ?thesis unfolding b using 1 2 3 by simp
  qed
qed

lemma cut_then:
  assumes "cut_run m m'" and "cut_run k k'"
  shows "cut_run (then_io m k) (\<lambda>n. then_io (m' n) (k' n))"
  unfolding then_io_def by (rule cut_bind [OF assms(1)]) (rule assms(2))

lemma cut_catch_console:
  assumes m: "cut_run m m'"
  shows "cut_run (catch_io m (\<lambda>err. consoleLine l)) (\<lambda>n. catch_io (m' n) (\<lambda>err. consoleLine l))"
  unfolding cut_run_def
proof (intro allI)
  fix s
  obtain r t where ms: "m s = (r, t)" by (cases "m s")
  note dm = cut_runD [OF m ms]
  have c: "calls (snd (catch_io m (\<lambda>err. consoleLine l) s)) = calls t"
    and nf: "\<not> failed (fst (catch_io m (\<lambda>err. consoleLine l) s))"
    using ms by (cases r; simp add: catch_io_def consoleLine_def)+
  have "catch_io (m' n) (\<lambda>err. consoleLine l) s = catch_io m (\<lambda>err. consoleLine l) s"
    if "calls t \<le> n" for n
    using dm(2) [OF that] ms by (simp add: catch_io_def)
  then show "calls s \<le> calls (snd (catch_io m (\<lambda>err. consoleLine l) s))
          \<and> (\<forall>n. calls (snd (catch_io m (\<lambda>err. consoleLine l) s)) \<le> n \<longrightarrow>
                 catch_io (m' n) (\<lambda>err. consoleLine l) s =
                   catch_io m (\<lambda>err. consoleLine l) s)
          \<and> (failed (fst (catch_io m (\<lambda>err. consoleLine l) s)) \<longrightarrow>
                calls s < calls (snd (catch_io m (\<lambda>err. consoleLine l) s))
                \<and> snd (catch_io (m' (calls (snd (catch_io m (\<lambda>err. consoleLine l) s)) - 1))
                          (\<lambda>err. consoleLine l) s) =
                    snd (catch_io m (\<lambda>err. consoleLine l) s)
                \<and> failed (fst (catch_io
                                  (m' (calls (snd (catch_io m (\<lambda>err. consoleLine l) s)) - 1))
                                  (\<lambda>err. consoleLine l) s)))"
    using nf dm(1) unfolding c by simp
qed

text \<open>A call whose body does not count and, when it throws, writes nothing.\<close>

lemma cut_storeCall:
  assumes "\<And>s. calls (snd (body s)) = calls s"
    and "\<And>s. failed (fst (body s)) \<Longrightarrow> snd (body s) = s"
  shows "cut_run (storeCall env k body) (\<lambda>n. storeCall (cutAt env n) k body)"
  using assms by (auto simp add: cut_run_def storeCall_def cutAt_def)

lemma cut_ops:
  "cut_run (db_visitor_upsert env p v cr up) (\<lambda>n. db_visitor_upsert (cutAt env n) p v cr up)"
  "cut_run (db_visitor_update env i fv) (\<lambda>n. db_visitor_update (cutAt env n) i fv)"
  "cut_run (db_event_create env row) (\<lambda>n. db_event_create (cutAt env n) row)"
  "cut_run (db_variantAssignment_findUnique env i e)
     (\<lambda>n. db_variantAssignment_findUnique (cutAt env n) i e)"
  "cut_run (db_variantAssignment_create env a) (\<lambda>n. db_variantAssignment_create (cutAt env n) a)"
  "cut_run (db_variant_update env x fa) (\<lambda>n. db_variant_update (cutAt env n) x fa)"
  "cut_run (db_experiment_update env x fe) (\<lambda>n. db_experiment_update (cutAt env n) x fe)"
  "cut_run (db_experimentGoal_updateMany env e g fg)
     (\<lambda>n. db_experimentGoal_updateMany (cutAt env n) e g fg)"
  "cut_run (db_goalConversion_create env gc) (\<lambda>n. db_goalConversion_create (cutAt env n) gc)"
  "cut_run (db_experimentDailyStat_upsert env key c u)
     (\<lambda>n. db_experimentDailyStat_upsert (cutAt env n) key c u)"
  "cut_run (db_liveLog_create env ll) (\<lambda>n. db_liveLog_create (cutAt env n) ll)"
  unfolding db_defs
  by (rule cut_storeCall; simp split: option.splits)+

lemma cut_liveLog_reads:
  "cut_run (\<lambda>s. db_liveLog_create env (lf s) s) (\<lambda>n s. db_liveLog_create (cutAt env n) (lf s) s)"
  by (auto simp add: cut_run_def db_liveLog_create_def storeCall_def cutAt_def)

lemma env_cutAt [simp]:
  "clock (cutAt env n) = clock env" "localMidnight (cutAt env n) = localMidnight env"
  "searchParams (cutAt env n) = searchParams env" "jsonParse (cutAt env n) = jsonParse env"
  "startOfLocalDay (cutAt env n) = startOfLocalDay env"
  by (simp_all add: cutAt_def startOfLocalDay_def fun_eq_iff)

lemma newVisitor_cutAt [simp]: "newVisitor (cutAt env n) = newVisitor env"
  apply (intro ext)
  unfolding newVisitor_def env_cutAt
  by (rule refl)

text \<open>A computation that first reads the database.\<close>

lemma cut_reads:
  assumes "\<And>x. cut_run (m x) (m' x)"
  shows "cut_run (\<lambda>s. m (g s) s) (\<lambda>n s. m' (g s) n s)"
  unfolding cut_run_def
proof (intro allI)
  fix s
  show "calls s \<le> calls (snd (m (g s) s))
          \<and> (\<forall>n. calls (snd (m (g s) s)) \<le> n \<longrightarrow> m' (g s) n s = m (g s) s)
          \<and> (failed (fst (m (g s) s)) \<longrightarrow>
                calls s < calls (snd (m (g s) s))
                \<and> snd (m' (g s) (calls (snd (m (g s) s)) - 1) s) = snd (m (g s) s)
                \<and> failed (fst (m' (g s) (calls (snd (m (g s) s)) - 1) s)))"
    using assms [of "g s", unfolded cut_run_def, THEN spec, of s] .
qed

lemma cut_updateDailyStat:
  "cut_run (updateDailyStat env e f r) (\<lambda>n. updateDailyStat (cutAt env n) e f r)"
proof -
  let ?c = "\<lparr>ds_impressions = (if f = Impressions then 1 else 0),
            ds_conversions = (if f = Conversions then 1 else 0),
            ds_revenue = numOrZero r\<rparr>"
  let ?u = "\<lambda>x. let r1 = (case f of
                            Impressions \<Rightarrow> x\<lparr>ds_impressions := ds_impressions x + 1\<rparr>
                          | Conversions \<Rightarrow> x\<lparr>ds_conversions := ds_conversions x + 1\<rparr>)
                in if truthyNum r \<and> f = Conversions
                   then r1\<lparr>ds_revenue := ds_revenue r1 + numOrZero r\<rparr> else r1"
  let ?m = "\<lambda>env today.
      catch_io (db_experimentDailyStat_upsert env (e, today) ?c ?u)
        (\<lambda>err. consoleLine ''Daily stat update error:'')"
  have u: "updateDailyStat env' e f r =
             (\<lambda>s. ?m env' (startOfLocalDay env' (clock env' (calls s))) s)" for env'
    by (intro ext) (simp only: updateDailyStat_def Let_def)
  have c: "cut_run (?m env today) (\<lambda>n. ?m (cutAt env n) today)" for today
    by (intro cut_catch_console cut_ops)
  have "cut_run (\<lambda>s. ?m env (startOfLocalDay env (clock env (calls s))) s)
          (\<lambda>n s. ?m (cutAt env n) (startOfLocalDay env (clock env (calls s))) s)"
    by (rule cut_reads [where m = "?m env" and m' = "\<lambda>today n. ?m (cutAt env n) today"
          and g = "\<lambda>s. startOfLocalDay env (clock env (calls s))"]) (rule c)
  then show ?thesis unfolding u env_cutAt .
qed

lemma cut_upsertVisitor:
  "cut_run (upsertVisitor env evt) (\<lambda>n. upsertVisitor (cutAt env n) evt)"
proof -
  have t: "cut_run (storeCall env VisitorUpsert (throw_io ValidationError :: Visitor io))
             (\<lambda>n. storeCall (cutAt env n) VisitorUpsert (throw_io ValidationError))"
    by (rule cut_storeCall) (simp_all add: throw_io_def)
  show ?thesis
    unfolding upsertVisitor_def newVisitor_cutAt
    by (cases "evt_projectId evt"; cases "evt_visitorId evt"; cases "evt_timestamp evt")
       (simp_all add: t cut_ops)
qed

lemma cut_handleSessionStart:
  "cut_run (handleSessionStart env i evt) (\<lambda>n. handleSessionStart (cutAt env n) i evt)"
  unfolding handleSessionStart_def by (intro cut_then cut_ops)

lemma cut_handleCustomEvent:
  "cut_run (handleCustomEvent env i evt) (\<lambda>n. handleCustomEvent (cutAt env n) i evt)"
  unfolding handleCustomEvent_def by (rule cut_ops)

lemma cut_handleGenericEvent:
  "cut_run (handleGenericEvent env i evt) (\<lambda>n. handleGenericEvent (cutAt env n) i evt)"
  unfolding handleGenericEvent_def by (rule cut_ops)

lemma cut_attributionBody:
  "cut_run (attributionBody env i evt g a) (\<lambda>n. attributionBody (cutAt env n) i evt g a)"
  unfolding attributionBody_def env_cutAt
  by (intro cut_then cut_ops cut_updateDailyStat cut_liveLog_reads)

lemma cut_attributionLoop:
  "cut_run (attributionLoop env i evt g as) (\<lambda>n. attributionLoop (cutAt env n) i evt g as)"
  by (induction as) (simp_all add: cut_ret cut_then cut_attributionBody)

lemma cut_handleGoalConversion:
  "cut_run (handleGoalConversion env i evt) (\<lambda>n. handleGoalConversion (cutAt env n) i evt)"
  unfolding handleGoalConversion_def
  by (cases "evt_goalId evt"; cases "evt_attributedExperiments evt")
     (simp_all add: cut_ret cut_attributionLoop)

lemma cut_handleExperimentView:
  "cut_run (handleExperimentView env i evt) (\<lambda>n. handleExperimentView (cutAt env n) i evt)"
proof (cases "truthy (evt_experimentId evt) \<and> truthy (evt_variantId evt)")
  case False
  then have "handleExperimentView env' i evt = ret_io ()" for env'
    using view_noop [of evt env' i] by blast
  then show ?thesis by (simp add: cut_ret)
next
  case True
  then obtain e v where ids: "evt_experimentId evt = Some e" "e \<noteq> []"
      "evt_variantId evt = Some v" "v \<noteq> []"
    by (cases "evt_experimentId evt"; cases "evt_variantId evt") auto
  have inner: "cut_run
      (case x of
         Some _ \<Rightarrow> ret_io ()
       | None \<Rightarrow>
           then_io (db_variantAssignment_create env
                      \<lparr>as_visitorId = i, as_experimentId = e, as_variantId = v\<rparr>)
          (then_io (db_variant_update env v (\<lambda>r. r\<lparr>var_visitors := var_visitors r + 1\<rparr>))
          (then_io (db_experiment_update env e
                      (\<lambda>r. r\<lparr>exp_totalVisitors := exp_totalVisitors r + 1\<rparr>))
                   (updateDailyStat env e Impressions None))))
      (\<lambda>n. case x of
         Some _ \<Rightarrow> ret_io ()
       | None \<Rightarrow>
           then_io (db_variantAssignment_create (cutAt env n)
                      \<lparr>as_visitorId = i, as_experimentId = e, as_variantId = v\<rparr>)
          (then_io (db_variant_update (cutAt env n) v
                      (\<lambda>r. r\<lparr>var_visitors := var_visitors r + 1\<rparr>))
          (then_io (db_experiment_update (cutAt env n) e
                      (\<lambda>r. r\<lparr>exp_totalVisitors := exp_totalVisitors r + 1\<rparr>))
                   (updateDailyStat (cutAt env n) e Impressions None))))" for x
    by (cases x) (simp_all add: cut_ret cut_then cut_ops cut_updateDailyStat)
  show ?thesis
    unfolding view_as_then [OF ids] env_cutAt
    by (intro cut_then cut_bind cut_ops cut_liveLog_reads inner)
qed

lemma cut_processEvent:
  "cut_run (processEvent env evt) (\<lambda>n. processEvent (cutAt env n) evt)"
proof (cases "\<not> truthy (evt_projectId evt) \<or> \<not> truthy (evt_visitorId evt)
         \<or> \<not> truthy (evt_eventType evt)")
  case True
  then show ?thesis by (simp add: processEvent_def cut_console)
next
  case False
  have r: "cut_run
      (if evt_eventType evt = Some ''SESSION_START''
         then handleSessionStart env (v_id x) evt
       else if evt_eventType evt = Some ''EXPERIMENT_VIEW''
         then handleExperimentView env (v_id x) evt
       else if evt_eventType evt = Some ''GOAL_CONVERSION''
         then handleGoalConversion env (v_id x) evt
       else if evt_eventType evt = Some ''CUSTOM_EVENT''
         then handleCustomEvent env (v_id x) evt
       else handleGenericEvent env (v_id x) evt)
      (\<lambda>n. if evt_eventType evt = Some ''SESSION_START''
         then handleSessionStart (cutAt env n) (v_id x) evt
       else if evt_eventType evt = Some ''EXPERIMENT_VIEW''
         then handleExperimentView (cutAt env n) (v_id x) evt
       else if evt_eventType evt = Some ''GOAL_CONVERSION''
         then handleGoalConversion (cutAt env n) (v_id x) evt
       else if evt_eventType evt = Some ''CUSTOM_EVENT''
         then handleCustomEvent (cutAt env n) (v_id x) evt
       else handleGenericEvent (cutAt env n) (v_id x) evt)" for x
    by (simp add: cut_handleSessionStart cut_handleExperimentView cut_handleGoalConversion
          cut_handleCustomEvent cut_handleGenericEvent)
  have "cut_run
      (bind_io (upsertVisitor env evt)
         (\<lambda>x. if evt_eventType evt = Some ''SESSION_START''
                 then handleSessionStart env (v_id x) evt
               else if evt_eventType evt = Some ''EXPERIMENT_VIEW''
                 then handleExperimentView env (v_id x) evt
               else if evt_eventType evt = Some ''GOAL_CONVERSION''
                 then handleGoalConversion env (v_id x) evt
               else if evt_eventType evt = Some ''CUSTOM_EVENT''
                 then handleCustomEvent env (v_id x) evt
               else handleGenericEvent env (v_id x) evt))
      (\<lambda>n. bind_io (upsertVisitor (cutAt env n) evt)
         (\<lambda>x. if evt_eventType evt = Some ''SESSION_START''
                 then handleSessionStart (cutAt env n) (v_id x) evt
               else if evt_eventType evt = Some ''EXPERIMENT_VIEW''
                 then handleExperimentView (cutAt env n) (v_id x) evt
               else if evt_eventType evt = Some ''GOAL_CONVERSION''
                 then handleGoalConversion (cutAt env n) (v_id x) evt
               else if evt_eventType evt = Some ''CUSTOM_EVENT''
                 then handleCustomEvent (cutAt env n) (v_id x) evt
               else handleGenericEvent (cutAt env n) (v_id x) evt))"
    by (rule cut_bind [OF cut_upsertVisitor]) (rule r)
  with False show ?thesis by (simp add: processEvent_def)
qed

text \<open>
  A failing event leaves the database that the run cut at its last call leaves, in which
  that call and every later one is refused.
\<close>

lemma failing_event_abandoned:
  assumes "processDecoded env d s = (Err e, t)"
  shows "snd (processDecoded (cutAt env (calls t - 1)) d s) = t"
    and "failed (fst (processDecoded (cutAt env (calls t - 1)) d s))"
proof -
  have "snd (processDecoded (cutAt env (calls t - 1)) d s) = t
        \<and> failed (fst (processDecoded (cutAt env (calls t - 1)) d s))"
  proof (cases d)
    case JNull
    with assms show ?thesis by (simp add: processDecoded_def throw_io_def)
  next
    case (JEvent evt)
    with assms have p: "processEvent env evt s = (Err e, t)" by (simp add: processDecoded_def)
    have f: "failed (Err e :: unit result)" by simp
    show ?thesis
      using cut_runD(4) [OF cut_processEvent p f] cut_runD(5) [OF cut_processEvent p f] JEvent
      by (simp add: processDecoded_def)
  qed
  then show "snd (processDecoded (cutAt env (calls t - 1)) d s) = t"
    and "failed (fst (processDecoded (cutAt env (calls t - 1)) d s))" by simp_all
qed

text \<open>
  A conversion whose first GoalConversion insert succeeds and whose first Variant update
  is refused: the row of the first attribution stays, and nothing else is done.
\<close>

lemma conversion_variant_fails:
  assumes ty: "evt_eventType evt = Some ''GOAL_CONVERSION''"
    and pv: "truthy (evt_projectId evt)" "truthy (evt_visitorId evt)"
    and g: "evt_goalId evt = Some g" "g \<noteq> []"
    and at: "evt_attributedExperiments evt = Some (a # rest)"
    and up: "upsertVisitor env evt s = (Ok vis, s1)"
    and c1: "\<not> fails env GoalConversionCreate (calls s1)"
    and c2: "fails env VariantUpdate (calls s1 + 1)"
  shows "processDecoded env (JEvent evt) s =
           (Err StoreFault,
            s1\<lparr>goalConversions := goalConversions s1 @ [conversionRow (v_id vis) evt g a],
               calls := calls s1 + 2\<rparr>)"
proof -
  have ne: "a # rest \<noteq> []" by simp
  have "processDecoded env (JEvent evt) s =
          attributionLoop env (v_id vis) evt g (a # rest) s1"
    using processEvent_valid [OF pv _ up] ty conversion_runs_loop [OF g at ne]
    by (simp add: processDecoded_def)
  also have "\<dots> = (Err StoreFault,
            s1\<lparr>goalConversions := goalConversions s1 @ [conversionRow (v_id vis) evt g a],
               calls := calls s1 + 2\<rparr>)"
    using c1 c2
    by (simp add: attributionBody_def then_io_def bind_io_def db_goalConversion_create_def
          db_variant_update_def storeCall_def)
  finally show ?thesis .
qed

lemma eventsLoop_snoc:
  "eventsLoop env (pre @ [d]) s = snd (tryEvent env d (eventsLoop env pre s))"
  by (simp add: eventsLoop_append)

text \<open>
  C6: a record whose body decodes to the events \<open>evts\<close> is answered with result "Ok" and
  its original body, whatever happens to the events. All \<open>N\<close> events are run, in order;
  each runs on the database its predecessors left, whether they failed or not, and what
  it wrote stays: all of it when it succeeds, what it had written before the exception
  when it fails. The handler logs one "Event processing error:" line for each of the \<open>M\<close>
  failing events, so \<open>N - M\<close> events are applied in full. The rest of a failing event is
  abandoned: the event leaves the database that it leaves in the run in which the
  database refuses the last call the event made and every call after it (and there the
  event fails too), so the exception comes from that call and nothing is written after
  it; the loop then adds the error line and nothing else. For instance, when the first
  GoalConversion insert of a conversion succeeds and the Variant update after it is
  refused, the event ends there with that one row written, two calls after the upsert
  of its visitor.
\<close>

theorem C6_record_accepted:
  fixes env :: env and rcd :: FirehoseRecord and s :: world
  assumes "jsonParse env (rec_data rcd) = Some p"
  defines "evts \<equiv> (case p of ParsedArray ds \<Rightarrow> ds | ParsedValue d \<Rightarrow> [d])"
  shows "fst (processRecord env rcd s) =
           \<lparr>out_recordId = rec_recordId rcd, out_result = Ok_tag, out_data = rec_data rcd\<rparr>
       \<and> snd (processRecord env rcd s) = eventsLoop env evts s
       \<and> length (outcomes env evts s) = length evts
       \<and> errorLines (eventsLoop env evts s) =
           errorLines s + length (filter failed (outcomes env evts s))
       \<and> length (filter (\<lambda>r. \<not> failed r) (outcomes env evts s)) =
           length evts - length (filter failed (outcomes env evts s))
       \<and> (\<forall>pre d post. evts = pre @ d # post \<longrightarrow>
            eventsLoop env evts s =
              eventsLoop env post
                (case processDecoded env d (eventsLoop env pre s) of
                   (Ok x, t) \<Rightarrow> t
                 | (Err e, t) \<Rightarrow> t\<lparr>console := console t @ [''Event processing error:'']\<rparr>))
       \<and> (\<forall>pre d post e t.
            evts = pre @ d # post
            \<and> processDecoded env d (eventsLoop env pre s) = (Err e, t) \<longrightarrow>
            snd (processDecoded (cutAt env (calls t - 1)) d (eventsLoop env pre s)) = t
            \<and> failed (fst (processDecoded (cutAt env (calls t - 1)) d (eventsLoop env pre s)))
            \<and> eventsLoop env (pre @ [d]) s =
                t\<lparr>console := console t @ [''Event processing error:'']\<rparr>)
       \<and> (\<forall>pre evt post g a rest vis s1.
            evts = pre @ JEvent evt # post
            \<and> evt_eventType evt = Some ''GOAL_CONVERSION''
            \<and> truthy (evt_projectId evt) \<and> truthy (evt_visitorId evt)
            \<and> evt_goalId evt = Some g \<and> g \<noteq> []
            \<and> evt_attributedExperiments evt = Some (a # rest)
            \<and> upsertVisitor env evt (eventsLoop env pre s) = (Ok vis, s1)
            \<and> \<not> fails env GoalConversionCreate (calls s1)
            \<and> fails env VariantUpdate (calls s1 + 1) \<longrightarrow>
            processDecoded env (JEvent evt) (eventsLoop env pre s) =
              (Err StoreFault,
               s1\<lparr>goalConversions :=
                     goalConversions s1 @ [conversionRow (v_id vis) evt g a],
                  calls := calls s1 + 2\<rparr>))"
proof -
  have 1: "fst (processRecord env rcd s) =
           \<lparr>out_recordId = rec_recordId rcd, out_result = Ok_tag, out_data = rec_data rcd\<rparr>"
    and 2: "snd (processRecord env rcd s) = eventsLoop env evts s"
    using assms(1) by (simp_all add: processRecord_def evts_def)
  have 5: "length (filter (\<lambda>r. \<not> failed r) (outcomes env evts s)) =
           length evts - length (filter failed (outcomes env evts s))"
    using sum_length_filter_compl [of failed "outcomes env evts s"]
    by (simp add: length_outcomes)
  have 6: "eventsLoop env evts s =
              eventsLoop env post
                (case processDecoded env d (eventsLoop env pre s) of
                   (Ok x, t) \<Rightarrow> t
                 | (Err e, t) \<Rightarrow> t\<lparr>console := console t @ [''Event processing error:'']\<rparr>)"
    if "evts = pre @ d # post" for pre d post
    using that by (simp add: eventsLoop_append tryEvent_world)
  have 7: "snd (processDecoded (cutAt env (calls t - 1)) d (eventsLoop env pre s)) = t
            \<and> failed (fst (processDecoded (cutAt env (calls t - 1)) d (eventsLoop env pre s)))
            \<and> eventsLoop env (pre @ [d]) s =
                t\<lparr>console := console t @ [''Event processing error:'']\<rparr>"
    if "evts = pre @ d # post \<and> processDecoded env d (eventsLoop env pre s) = (Err e, t)"
    for pre d post e t
  proof -
    from that have p: "processDecoded env d (eventsLoop env pre s) = (Err e, t)" by simp
    show ?thesis
      using failing_event_abandoned [OF p] p by (simp add: eventsLoop_snoc tryEvent_world)
  qed
  have 8: "processDecoded env (JEvent evt) (eventsLoop env pre s) =
              (Err StoreFault,
               s1\<lparr>goalConversions :=
                     goalConversions s1 @ [conversionRow (v_id vis) evt g a],
                  calls := calls s1 + 2\<rparr>)"
    if "evts = pre @ JEvent evt # post
            \<and> evt_eventType evt = Some ''GOAL_CONVERSION''
            \<and> truthy (evt_projectId evt) \<and> truthy (evt_visitorId evt)
            \<and> evt_goalId evt = Some g \<and> g \<noteq> []
            \<and> evt_attributedExperiments evt = Some (a # rest)
            \<and> upsertVisitor env evt (eventsLoop env pre s) = (Ok vis, s1)
            \<and> \<not> fails env GoalConversionCreate (calls s1)
            \<and> fails env VariantUpdate (calls s1 + 1)"
    for pre evt post g a rest vis s1
    using that by (intro conversion_variant_fails [where rest = rest]) simp_all
  show ?thesis
    using 1 2 5 6 7 8 length_outcomes [of env evts s] eventsLoop_errorLines [of env evts s]
    by blast
qed

theorem C6_record_accepted_witness:
  "fst (processRecord env1 record1 world0) =
     \<lparr>out_recordId = ''r1'', out_result = Ok_tag, out_data = ''batch-1''\<rparr>
   \<and> outcomes env1 [JEvent (evt0\<lparr>evt_eventType := Some ''PAGE_VIEW''\<rparr>),
                  JEvent (evt0\<lparr>evt_eventType := Some ''CLICK''\<rparr>), JEvent evtView] world0
     = [Err StoreFault, Ok (), Err RecordNotFound]
   \<and> errorLines (snd (processRecord env1 record1 world0)) = 2
   \<and> snd (processDecoded (cutAt env1 1) (JEvent (evt0\<lparr>evt_eventType := Some ''PAGE_VIEW''\<rparr>))
            world0) =
       snd (processDecoded env1 (JEvent (evt0\<lparr>evt_eventType := Some ''PAGE_VIEW''\<rparr>)) world0)
   \<and> calls (snd (processDecoded env1 (JEvent (evt0\<lparr>evt_eventType := Some ''PAGE_VIEW''\<rparr>))
                   world0)) = 2
   \<and> events (snd (processDecoded env1 (JEvent (evt0\<lparr>evt_eventType := Some ''PAGE_VIEW''\<rparr>))
                    world0)) = []
   \<and> fst (processRecord envVariantFails record1 world2) =
       \<lparr>out_recordId = ''r1'', out_result = Ok_tag, out_data = ''batch-1''\<rparr>
   \<and> goalConversions (snd (processRecord envVariantFails record1 world2)) =
       [conversionRow 0 evtConversion ''g1''
          \<lparr>att_experimentId = ''exp1'', att_variantId = ''var1''\<rparr>]
   \<and> variants (snd (processRecord envVariantFails record1 world2)) ''var1'' =
       Some \<lparr>var_visitors = 0, var_conversions = 0\<rparr>
   \<and> liveLogs (snd (processRecord envVariantFails record1 world2)) = []
   \<and> calls (snd (processRecord envVariantFails record1 world2)) = 3"
proof -
  let ?pv = "JEvent (evt0\<lparr>evt_eventType := Some ''PAGE_VIEW''\<rparr>)"
  let ?rest = "[JEvent (evt0\<lparr>evt_eventType := Some ''CLICK''\<rparr>), JEvent evtView]"
  let ?evts = "[JEvent (evt0\<lparr>evt_eventType := Some ''PAGE_VIEW''\<rparr>),
                JEvent (evt0\<lparr>evt_eventType := Some ''CLICK''\<rparr>), JEvent evtView]"
  let ?a = "\<lparr>att_experimentId = ''exp1'', att_variantId = ''var1''\<rparr>"
  let ?t = "snd (processDecoded env1 ?pv world0)"
  let ?s1 = "snd (upsertVisitor envVariantFails evtConversion world2)"
  have p: "jsonParse env1 (rec_data record1) = Some (ParsedArray ?evts)"
    by (simp add: env1_def env0_def record1_def)
  have p2: "jsonParse envVariantFails (rec_data record1) =
              Some (ParsedValue (JEvent evtConversion))"
    by (simp add: envVariantFails_def env0_def)
  have e0: "errorLines world0 = 0" by (simp add: errorLines_def world0_def)
  have r: "rec_recordId record1 = ''r1''" "rec_data record1 = ''batch-1''"
    by (simp_all add: record1_def)
  note c = C6_record_accepted [OF p, of world0, unfolded parsed.case sample_outcomes]
  note c2 = C6_record_accepted [OF p2, of world2, unfolded parsed.case]
  have 1: "fst (processRecord env1 record1 world0) =
     \<lparr>out_recordId = ''r1'', out_result = Ok_tag, out_data = ''batch-1''\<rparr>"
    using c [THEN conjunct1] by (simp add: r)
  have 2: "snd (processRecord env1 record1 world0) = eventsLoop env1 ?evts world0"
    using c [THEN conjunct2, THEN conjunct1] by simp
  have 4: "errorLines (eventsLoop env1 ?evts world0) = 2"
    using c [THEN conjunct2, THEN conjunct2, THEN conjunct2, THEN conjunct1]
    by (simp add: e0)
  have f: "fst (processDecoded env1 ?pv world0) = Err StoreFault"
    and ct: "calls ?t = 2" and et: "events ?t = []"
    by (simp_all add: processDecoded_def processEvent_def handleGenericEvent_def
          upsertVisitor_def newVisitor_def lookupVisitor_def env1_def ex_defs Let_def io_defs
          db_defs)
  have h7: "?evts = [] @ ?pv # ?rest
            \<and> processDecoded env1 ?pv (eventsLoop env1 [] world0) = (Err StoreFault, ?t)"
    using f by (simp add: prod_eq_iff)
  have 7: "snd (processDecoded (cutAt env1 (calls ?t - 1)) ?pv (eventsLoop env1 [] world0)) = ?t"
    using c [THEN conjunct2, THEN conjunct2, THEN conjunct2, THEN conjunct2, THEN conjunct2,
        THEN conjunct2, THEN conjunct1, rule_format, OF h7] by blast
  have cut1: "snd (processDecoded (cutAt env1 1) ?pv world0) = ?t"
    using 7 by (simp add: ct)
  have u: "\<exists>vis. upsertVisitor envVariantFails evtConversion world2 = (Ok vis, ?s1)
                 \<and> v_id vis = 0"
    and cs: "calls ?s1 = 1" and gs: "goalConversions ?s1 = []"
    and vs: "variants ?s1 ''var1'' = Some \<lparr>var_visitors = 0, var_conversions = 0\<rparr>"
    and ls: "liveLogs ?s1 = []"
    by (simp_all add: upsertVisitor_def newVisitor_def lookupVisitor_def envVariantFails_def
          evtConversion_def ex_defs ex2_defs Let_def io_defs db_defs)
  then obtain vis where up: "upsertVisitor envVariantFails evtConversion world2 = (Ok vis, ?s1)"
    and vid: "v_id vis = 0" by blast
  have ff: "\<not> fails envVariantFails GoalConversionCreate (calls ?s1)"
    "fails envVariantFails VariantUpdate (calls ?s1 + 1)"
    by (simp_all add: envVariantFails_def)
  have ev: "evt_eventType evtConversion = Some ''GOAL_CONVERSION''"
    "truthy (evt_projectId evtConversion)" "truthy (evt_visitorId evtConversion)"
    "evt_goalId evtConversion = Some ''g1''"
    "evt_attributedExperiments evtConversion = Some (?a # [?a])"
    by (simp_all add: evtConversion_def evt0_def)
  have h8: "[JEvent evtConversion] = [] @ JEvent evtConversion # []
            \<and> evt_eventType evtConversion = Some ''GOAL_CONVERSION''
            \<and> truthy (evt_projectId evtConversion) \<and> truthy (evt_visitorId evtConversion)
            \<and> evt_goalId evtConversion = Some ''g1'' \<and> ''g1'' \<noteq> []
            \<and> evt_attributedExperiments evtConversion = Some (?a # [?a])
            \<and> upsertVisitor envVariantFails evtConversion
                 (eventsLoop envVariantFails [] world2) = (Ok vis, ?s1)
            \<and> \<not> fails envVariantFails GoalConversionCreate (calls ?s1)
            \<and> fails envVariantFails VariantUpdate (calls ?s1 + 1)"
    using ev up ff by simp
  have 8: "processDecoded envVariantFails (JEvent evtConversion)
             (eventsLoop envVariantFails [] world2) =
           (Err StoreFault,
            ?s1\<lparr>goalConversions :=
                   goalConversions ?s1 @ [conversionRow (v_id vis) evtConversion ''g1'' ?a],
                calls := calls ?s1 + 2\<rparr>)"
    by (rule c2 [THEN conjunct2, THEN conjunct2, THEN conjunct2, THEN conjunct2,
          THEN conjunct2, THEN conjunct2, THEN conjunct2, rule_format, OF h8])
  have 9: "fst (processRecord envVariantFails record1 world2) =
     \<lparr>out_recordId = ''r1'', out_result = Ok_tag, out_data = ''batch-1''\<rparr>"
    using c2 [THEN conjunct1] by (simp add: r)
  have 10: "snd (processRecord envVariantFails record1 world2) =
              eventsLoop envVariantFails [JEvent evtConversion] world2"
    using c2 [THEN conjunct2, THEN conjunct1] by simp
  have 11: "eventsLoop envVariantFails [JEvent evtConversion] world2 =
              ?s1\<lparr>goalConversions := [conversionRow 0 evtConversion ''g1'' ?a],
                  calls := 3,
                  console := console ?s1 @ [''Event processing error:'']\<rparr>"
    using 8 by (simp add: tryEvent_world vid gs cs)
  have 12: "goalConversions (snd (processRecord envVariantFails record1 world2)) =
       [conversionRow 0 evtConversion ''g1'' ?a]"
    "variants (snd (processRecord envVariantFails record1 world2)) ''var1'' =
       Some \<lparr>var_visitors = 0, var_conversions = 0\<rparr>"
    "liveLogs (snd (processRecord envVariantFails record1 world2)) = []"
    "calls (snd (processRecord envVariantFails record1 world2)) = 3"
    unfolding 10 11 by (simp_all add: vs ls)
  show ?thesis using 1 2 4 sample_outcomes cut1 ct et 9 12 by simp
qed

subsection \<open>Identifiers of Visitor rows\<close>

text \<open>
  The hypotheses on identifiers of the theorem on Visitor counters say \<open>visitorIdsOk\<close>.
  It holds of the empty database and every event keeps it.
\<close>

lemma visitorIdsOk_update:
  assumes ok: "visitorIdsOk s" and id: "\<And>x. v_id (f x) = v_id x"
  shows "visitorIdsOk (s\<lparr>visitors := updateFirst P f (visitors s), calls := c\<rparr>)"
proof -
  have m: "map v_id (updateFirst P f (visitors s)) = map v_id (visitors s)"
    using id by (rule map_id_updateFirst)
  have b: "v_id r < nextVisitorId s" if r: "r \<in> set (updateFirst P f (visitors s))" for r
  proof -
    from r have "v_id r \<in> set (map v_id (updateFirst P f (visitors s)))" by simp
    then have "v_id r \<in> set (map v_id (visitors s))" by (simp only: m)
    then obtain r' where "r' \<in> set (visitors s)" "v_id r' = v_id r" by auto
    with ok show ?thesis by (auto simp: visitorIdsOk_def)
  qed
  from ok have "distinct (map v_id (visitors s))" by (simp add: visitorIdsOk_def)
  with m b show ?thesis by (simp add: visitorIdsOk_def)
qed

lemma visitorIdsOk_create:
  assumes "visitorIdsOk s" and "v_id r = nextVisitorId s"
  shows "visitorIdsOk (s\<lparr>visitors := visitors s @ [r],
            nextVisitorId := nextVisitorId s + 1, calls := c\<rparr>)"
  using assms by (auto simp: visitorIdsOk_def less_Suc_eq)

lemma visitorIdsOk_other:
  "visitors s' = visitors s \<Longrightarrow> nextVisitorId s' = nextVisitorId s
   \<Longrightarrow> visitorIdsOk s' = visitorIdsOk s"
  by (simp add: visitorIdsOk_def)

lemma visitorIdsOk_frame [simp]:
  "visitorIdsOk (t\<lparr>events := ev\<rparr>) = visitorIdsOk t"
  "visitorIdsOk (t\<lparr>calls := c\<rparr>) = visitorIdsOk t"
  "visitorIdsOk (t\<lparr>console := l\<rparr>) = visitorIdsOk t"
  by (simp_all add: visitorIdsOk_def)

lemma upsertVisitor_visitorIdsOk:
  assumes ok: "visitorIdsOk s"
  shows "visitorIdsOk (snd (upsertVisitor env evt s))"
proof (cases "fails env VisitorUpsert (calls s)")
  case True
  then have "snd (upsertVisitor env evt s) = s\<lparr>calls := calls s + 1\<rparr>"
    by (simp add: upsertVisitor_def io_defs db_defs split: option.splits)
  with ok show ?thesis by simp
next
  case False
  show ?thesis
  proof (cases "evt_projectId evt"; cases "evt_visitorId evt"; cases "evt_timestamp evt")
    fix p v t
    assume f: "evt_projectId evt = Some p" "evt_visitorId evt = Some v"
      "evt_timestamp evt = Some t"
    show ?thesis
    proof (cases "lookupVisitor p v s")
      case None
      have "visitorIdsOk (s\<lparr>visitors := visitors s @ [newVisitor env evt p v t (nextVisitorId s)],
            nextVisitorId := nextVisitorId s + 1, calls := calls s + 1\<rparr>)"
        using ok by (rule visitorIdsOk_create) (simp add: newVisitor_fields)
      then show ?thesis by (simp add: upsertVisitor_create [OF f False None])
    next
      case (Some r0)
      have "visitorIdsOk (s\<lparr>visitors := updateFirst (\<lambda>r. v_projectId r = p \<and> v_visitorId r = v)
                  (\<lambda>r. r\<lparr>v_lastSeen := t, v_pageViews := v_pageViews r + 1\<rparr>) (visitors s),
              calls := calls s + 1\<rparr>)"
        using ok by (rule visitorIdsOk_update) simp
      then show ?thesis by (simp add: upsertVisitor_update [OF f False Some])
    qed
  qed (use ok in \<open>simp_all add: upsertVisitor_def io_defs\<close>)
qed

lemma handleSessionStart_visitorIdsOk:
  assumes ok: "visitorIdsOk s"
  shows "visitorIdsOk (snd (handleSessionStart env i evt s))"
proof -
  have "visitorIdsOk (s\<lparr>visitors := updateFirst (\<lambda>r. v_id r = i)
              (\<lambda>r. r\<lparr>v_visitCount := v_visitCount r + 1\<rparr>) (visitors s), calls := calls s\<rparr>)"
    using ok by (rule visitorIdsOk_update) simp
  then have u: "visitorIdsOk (s\<lparr>visitors := updateFirst (\<lambda>r. v_id r = i)
              (\<lambda>r. r\<lparr>v_visitCount := v_visitCount r + 1\<rparr>) (visitors s)\<rparr>)"
    by simp
  show ?thesis
    using ok u
    by (auto simp add: handleSessionStart_def io_defs db_defs split: option.splits)
qed

text \<open>The property is an invariant of the processing of events.\<close>

lemma processEvent_visitorIdsOk:
  assumes ok: "visitorIdsOk s"
  shows "visitorIdsOk (snd (processEvent env evt s))"
proof (cases "truthy (evt_projectId evt) \<and> truthy (evt_visitorId evt) \<and> truthy (evt_eventType evt)")
  case False
  then have "snd (processEvent env evt s) = s\<lparr>console := console s @ [''Missing required fields:'']\<rparr>"
    by (auto simp: processEvent_def consoleLine_def)
  with ok show ?thesis by (simp add: visitorIdsOk_def)
next
  case True
  obtain r s1 where u: "upsertVisitor env evt s = (r, s1)" by (cases "upsertVisitor env evt s")
  have ok1: "visitorIdsOk s1" using upsertVisitor_visitorIdsOk [OF ok, where env = env and evt = evt] u by simp
  show ?thesis
  proof (cases r)
    case (Err e)
    with u True have "snd (processEvent env evt s) = s1"
      by (simp add: processEvent_def bind_io_def)
    with ok1 show ?thesis by simp
  next
    case (Ok vis)
    note pe = processEvent_valid [OF _ _ _ u [unfolded Ok]]
    show ?thesis
    proof (cases "evt_eventType evt = Some ''SESSION_START''")
      case True
      with pe \<open>truthy (evt_projectId evt) \<and> truthy (evt_visitorId evt) \<and> truthy (evt_eventType evt)\<close>
      have "processEvent env evt s = handleSessionStart env (v_id vis) evt s1" by simp
      with handleSessionStart_visitorIdsOk [OF ok1, where env = env and i = "v_id vis" and evt = evt]
      show ?thesis by simp
    next
      case False
      have "sameVisitors s1 (snd (processEvent env evt s))"
        using False pe True sameVisitors_view [of env "v_id vis" evt]
          sameVisitors_conversion [of env "v_id vis" evt]
          sameVisitors_custom [of env "v_id vis" evt]
          sameVisitors_generic [of env "v_id vis" evt]
        by (simp add: io_rel_def)
      then have "visitors (snd (processEvent env evt s)) = visitors s1"
        "nextVisitorId (snd (processEvent env evt s)) = nextVisitorId s1"
        by (simp_all add: sameVisitors_def)
      from visitorIdsOk_other [OF this] ok1 show ?thesis by simp
    qed
  qed
qed

lemma world0_visitorIdsOk: "visitorIdsOk world0"
  by (simp add: visitorIdsOk_def world0_def)

subsection \<open>The batch\<close>

text \<open>The handler answers every record, in order, under its own identifier.\<close>

lemma handler_recordIds: "map out_recordId (fst (handler env rcds s)) = map rec_recordId rcds"
proof (induction rcds arbitrary: s)
  case Nil
  show ?case by simp
next
  case (Cons r rs)
  obtain out s1 where p: "processRecord env r s = (out, s1)" by (cases "processRecord env r s")
  obtain outs s2 where h: "handler env rs s1 = (outs, s2)" by (cases "handler env rs s1")
  have "out_recordId out = rec_recordId r"
    using p by (auto simp: processRecord_def split: option.splits)
  with Cons.IH [where s = s1] p h show ?case by simp
qed

end
